theory Spec2Isabelle
  imports Main "HOL-Library.Sublist"
begin

section \<open>Strings and characters\<close>

text \<open>
  The program is \<^verbatim>\<open>src/dags/project.py\<close>. A Python \<^verbatim>\<open>str\<close> is modelled as a
  \<^typ>\<open>string\<close>. On strings of ASCII characters (code points below 128, \<open>is_ascii\<close>
  below) the definitions of this section are \<^verbatim>\<open>str.lower\<close>, \<^verbatim>\<open>str.strip\<close> and the
  regular-expression classes \<^verbatim>\<open>\s\<close>, \<^verbatim>\<open>\w\<close>, \<^verbatim>\<open>\d\<close> of Python. Beyond ASCII they
  are not: Python lowers, strips and classifies by Unicode (\<^verbatim>\<open>str.lower\<close> even depends
  on the neighbouring characters there), while \<open>lower_char\<close> leaves such a character
  alone and no class below contains it. The theorems on the normalisation of titles
  therefore assume ASCII titles.
\<close>

definition ascii_upper :: string where
  "ascii_upper = ''ABCDEFGHIJKLMNOPQRSTUVWXYZ''"

definition ascii_lower :: string where
  "ascii_lower = ''abcdefghijklmnopqrstuvwxyz''"

definition ascii_digits :: string where
  "ascii_digits = ''0123456789''"

text \<open>\<^verbatim>\<open>str.lower\<close> on one character.\<close>

definition lower_char :: "char \<Rightarrow> char" where
  "lower_char c = (case map_of (zip ascii_upper ascii_lower) c of Some d \<Rightarrow> d | None \<Rightarrow> c)"

definition lower :: "string \<Rightarrow> string" where
  "lower s = map lower_char s"

text \<open>
  \<^verbatim>\<open>str.isspace\<close>, which is also the class \<^verbatim>\<open>\s\<close> of a \<^verbatim>\<open>str\<close> pattern: tab, line
  feed, vertical tab, form feed, carriage return, the four separators 0x1C to 0x1F, and
  the space.
\<close>

definition is_space :: "char \<Rightarrow> bool" where
  "is_space c \<longleftrightarrow> c \<in> set [CHR 0x09, CHR 0x0A, CHR 0x0B, CHR 0x0C, CHR 0x0D,
                            CHR 0x1C, CHR 0x1D, CHR 0x1E, CHR 0x1F, CHR '' '']"

definition is_digit :: "char \<Rightarrow> bool" where
  "is_digit c \<longleftrightarrow> c \<in> set ascii_digits"

text \<open>The class \<^verbatim>\<open>\w\<close>: letters, digits and the underscore.\<close>

definition is_word :: "char \<Rightarrow> bool" where
  "is_word c \<longleftrightarrow> c \<in> set (ascii_lower @ ascii_upper @ ascii_digits @ ''_'')"

text \<open>\<^verbatim>\<open>s.lstrip(chars)\<close>, \<^verbatim>\<open>s.rstrip(chars)\<close> and \<^verbatim>\<open>s.strip()\<close>.\<close>

definition lstrip_where :: "(char \<Rightarrow> bool) \<Rightarrow> string \<Rightarrow> string" where
  "lstrip_where P s = dropWhile P s"

definition rstrip_where :: "(char \<Rightarrow> bool) \<Rightarrow> string \<Rightarrow> string" where
  "rstrip_where P s = rev (dropWhile P (rev s))"

definition strip :: "string \<Rightarrow> string" where
  "strip s = rstrip_where is_space (lstrip_where is_space s)"

text \<open>\<^verbatim>\<open>s.split(c)[0]\<close> and the two halves of \<^verbatim>\<open>s.split(c, 1)\<close> when \<open>c\<close> occurs.\<close>

definition before_char :: "char \<Rightarrow> string \<Rightarrow> string" where
  "before_char c s = takeWhile (\<lambda>x. x \<noteq> c) s"

definition after_char :: "char \<Rightarrow> string \<Rightarrow> string" where
  "after_char c s = drop 1 (dropWhile (\<lambda>x. x \<noteq> c) s)"

text \<open>The substring test \<^verbatim>\<open>k in s\<close>.\<close>

fun contains :: "string \<Rightarrow> string \<Rightarrow> bool" where
  "contains [] k = (k = [])"
| "contains (c # cs) k = (prefix k (c # cs) \<or> contains cs k)"

text \<open>\<^verbatim>\<open>int(ds)\<close> of a run of decimal digits, and \<^verbatim>\<open>str(n)\<close> of a natural number.\<close>

definition digit_val :: "char \<Rightarrow> nat" where
  "digit_val c = length (takeWhile (\<lambda>d. d \<noteq> c) ascii_digits)"

definition int_of_digits :: "string \<Rightarrow> nat" where
  "int_of_digits ds = foldl (\<lambda>n c. 10 * n + digit_val c) 0 ds"

fun str_of_nat :: "nat \<Rightarrow> string" where
  "str_of_nat n = (if n < 10 then [ascii_digits ! n]
                   else str_of_nat (n div 10) @ [ascii_digits ! (n mod 10)])"

section \<open>URL normalisation\<close>

text \<open>
  \<^verbatim>\<open>normalize_url\<close> calls \<^verbatim>\<open>urllib.parse.urlparse\<close> of the Python standard library
  and reads the fields \<^verbatim>\<open>scheme\<close>, \<^verbatim>\<open>netloc\<close> and \<^verbatim>\<open>path\<close> of its result. The
  library function is written out here as CPython 3.11 and 3.12 define it (\<^verbatim>\<open>urlsplit\<close>,
  \<^verbatim>\<open>_splitnetloc\<close>, \<^verbatim>\<open>_splitparams\<close>). It raises \<^verbatim>\<open>ValueError\<close> on a network
  location with unbalanced square brackets, on a bracketed host that is no IP literal
  (\<^verbatim>\<open>_check_bracketed_host\<close>, through the module \<^verbatim>\<open>ipaddress\<close>) and on a non-ASCII
  network location that NFKC normalisation changes into one with a delimiter
  (\<^verbatim>\<open>_checknetloc\<close>, through \<^verbatim>\<open>unicodedata\<close>). The last two checks are the parameter
  \<open>netloc_valid\<close> of the model: it is consulted exactly where the library runs them, and
  every theorem holds for every such predicate.
\<close>

record split_result =
  scheme :: string
  netloc :: string
  path :: string
  query :: string
  fragment :: string

definition scheme_chars :: string where
  "scheme_chars = ascii_lower @ ascii_upper @ ascii_digits @ ''+-.''"

definition uses_params :: "string list" where
  "uses_params = ['''', ''ftp'', ''hdl'', ''prospero'', ''http'', ''imap'', ''https'',
                  ''shttp'', ''rtsp'', ''rtsps'', ''rtspu'', ''sip'', ''sips'', ''mms'', ''sftp'',
                  ''tel'']"

text \<open>The characters \<^verbatim>\<open>_WHATWG_C0_CONTROL_OR_SPACE\<close> (0x00 to 0x20).\<close>

definition c0_control_or_space :: "char \<Rightarrow> bool" where
  "c0_control_or_space c \<longleftrightarrow> (of_char c :: nat) \<le> 32"

text \<open>The characters \<^verbatim>\<open>_UNSAFE_URL_BYTES_TO_REMOVE\<close>: tab, carriage return, line feed.\<close>

definition unsafe_url_byte :: "char \<Rightarrow> bool" where
  "unsafe_url_byte c \<longleftrightarrow> c \<in> set [CHR 0x09, CHR 0x0D, CHR 0x0A]"

definition is_ascii_alpha :: "char \<Rightarrow> bool" where
  "is_ascii_alpha c \<longleftrightarrow> c \<in> set (ascii_lower @ ascii_upper)"

definition is_ascii :: "char \<Rightarrow> bool" where
  "is_ascii c \<longleftrightarrow> (of_char c :: nat) < 128"

text \<open>
  The scheme: \<^verbatim>\<open>i = url.find(':')\<close>; when \<^verbatim>\<open>i > 0\<close>, the first character is an ASCII
  letter and every character before the colon is a scheme character, the scheme is that
  prefix in lower case and the rest follows the colon.
\<close>

definition split_scheme :: "string \<Rightarrow> string \<times> string" where
  "split_scheme u =
     (let s = before_char CHR '':'' u in
      if CHR '':'' \<in> set u \<and> s \<noteq> [] \<and> is_ascii_alpha (hd u)
         \<and> list_all (\<lambda>c. c \<in> set scheme_chars) s
      then (lower s, after_char CHR '':'' u)
      else ('''', u))"

definition is_delim :: "char \<Rightarrow> bool" where
  "is_delim c \<longleftrightarrow> c \<in> set ''/?#''"

text \<open>
  \<^verbatim>\<open>_splitnetloc(url, 2)\<close> when the rest starts with two slashes: the network location
  runs to the first of \<^verbatim>\<open>/\<close>, \<^verbatim>\<open>?\<close>, \<^verbatim>\<open>#\<close>.
\<close>

definition split_netloc :: "string \<Rightarrow> string \<times> string" where
  "split_netloc u =
     (if take 2 u = ''//''
      then (takeWhile (\<lambda>c. \<not> is_delim c) (drop 2 u), dropWhile (\<lambda>c. \<not> is_delim c) (drop 2 u))
      else ('''', u))"

definition netloc_raises :: "(string \<Rightarrow> bool) \<Rightarrow> string \<Rightarrow> bool" where
  "netloc_raises netloc_valid n \<longleftrightarrow>
     (CHR ''['' \<in> set n \<and> CHR '']'' \<notin> set n) \<or> (CHR '']'' \<in> set n \<and> CHR ''['' \<notin> set n) \<or>
     (((CHR ''['' \<in> set n \<and> CHR '']'' \<in> set n) \<or> \<not> list_all is_ascii n) \<and> \<not> netloc_valid n)"

definition urlsplit :: "(string \<Rightarrow> bool) \<Rightarrow> string \<Rightarrow> string + split_result" where
  "urlsplit netloc_valid url0 =
     (let u1 = lstrip_where c0_control_or_space url0;
          u2 = filter (\<lambda>c. \<not> unsafe_url_byte c) u1;
          (sch, u3) = split_scheme u2;
          (nl, u4) = split_netloc u3;
          u5 = before_char CHR ''#'' u4;
          frag = after_char CHR ''#'' u4;
          u6 = before_char CHR ''?'' u5;
          qry = after_char CHR ''?'' u5
      in if netloc_raises netloc_valid nl then Inl ''ValueError''
         else Inr \<lparr>scheme = sch, netloc = nl, path = u6, query = qry, fragment = frag\<rparr>)"

text \<open>
  \<^verbatim>\<open>_splitparams\<close>: the parameters start at the first semicolon of the last path
  segment; the path is what precedes it.
\<close>

definition last_segment :: "string \<Rightarrow> string" where
  "last_segment p = rev (takeWhile (\<lambda>c. c \<noteq> CHR ''/'') (rev p))"

definition splitparams :: "string \<Rightarrow> string" where
  "splitparams p =
     (if CHR ''/'' \<in> set p
      then (let seg = last_segment p in
            if CHR '';'' \<in> set seg
            then take (length p - length seg) p @ before_char CHR '';'' seg
            else p)
      else before_char CHR '';'' p)"

definition urlparse :: "(string \<Rightarrow> bool) \<Rightarrow> string \<Rightarrow> string + split_result" where
  "urlparse netloc_valid u =
     (case urlsplit netloc_valid u of
        Inl e \<Rightarrow> Inl e
      | Inr r \<Rightarrow>
          if scheme r \<in> set uses_params \<and> CHR '';'' \<in> set (path r)
          then Inr (r\<lparr>path := splitparams (path r)\<rparr>)
          else Inr r)"

definition site_origin :: string where
  "site_origin = ''https://www.rottentomatoes.com''"

definition is_slash :: "char \<Rightarrow> bool" where
  "is_slash c \<longleftrightarrow> c = CHR ''/''"

text \<open>Lines 33 to 37: a protocol-relative or root-relative URL is completed.\<close>

definition resolved :: "string \<Rightarrow> string" where
  "resolved url0 =
     (if \<not> (prefix ''http://'' url0 \<or> prefix ''https://'' url0)
      then (if prefix ''//'' url0 then ''https:'' @ url0
            else if prefix ''/'' url0 then site_origin @ url0
            else url0)
      else url0)"

text \<open>The bare \<^verbatim>\<open>except\<close> catches whatever \<^verbatim>\<open>urlparse\<close> raises.\<close>

definition normalize_url :: "(string \<Rightarrow> bool) \<Rightarrow> string \<Rightarrow> string" where
  "normalize_url netloc_valid url0 =
     (if url0 = [] then []
      else
        (case urlparse netloc_valid (resolved url0) of
           Inr parsed \<Rightarrow>
             rstrip_where is_slash (scheme parsed @ ''://'' @ netloc parsed @ path parsed)
         | Inl e \<Rightarrow>
             rstrip_where is_slash
               (before_char CHR ''#'' (before_char CHR ''?'' (resolved url0)))))"

section \<open>Title normalisation\<close>

text \<open>\<^verbatim>\<open>re.sub(r'\s+', ' ', s)\<close>: every maximal run of white space becomes one space.\<close>

function collapse_spaces :: "string \<Rightarrow> string" where
  "collapse_spaces [] = []"
| "collapse_spaces (c # cs) =
     (if is_space c then CHR '' '' # collapse_spaces (dropWhile is_space cs)
      else c # collapse_spaces cs)"
  by pat_completeness auto
termination
  by (relation "measure length") (auto simp: length_dropWhile_le less_Suc_eq_le)

text \<open>\<^verbatim>\<open>re.sub(r'[^\w\s]', '', s)\<close>: only word characters and white space stay.\<close>

definition strip_punctuation :: "string \<Rightarrow> string" where
  "strip_punctuation s = filter (\<lambda>c. is_word c \<or> is_space c) s"

definition normalize_title :: "string \<Rightarrow> string" where
  "normalize_title t =
     (if t = [] then ''''
      else strip_punctuation (collapse_spaces (strip (lower t))))"

section \<open>The list collector\<close>

text \<open>
  What the rendering engine shows \<^verbatim>\<open>scrape_list_pages\<close> is the input of the model.
  A link is either an exception raised by one of the calls made on it (caught by the
  inner \<^verbatim>\<open>try\<close>) or what those calls return: the number of title elements, their
  inner text and the \<^verbatim>\<open>href\<close> attribute. A page is either an exception raised before
  the loop over its links (caught by the outer \<^verbatim>\<open>try\<close>) or the links of the primary
  and of the fallback locator. The calls outside every \<^verbatim>\<open>try\<close> (launching the browser,
  opening and closing a page, shutting down) raise through the function.
\<close>

record movie =
  title :: string
  url :: string

record link =
  title_count :: nat
  inner_text :: string
  href :: "string option"

record page_content =
  primary_links :: "(string + link) list"
  fallback_links :: "(string + link) list"

record list_page =
  open_error :: "string option"
  content :: "string + page_content"
  close_error :: "string option"

record list_world =
  list_launch_error :: "string option"
  list_pages :: "nat \<Rightarrow> list_page"
  list_shutdown_error :: "string option"

text \<open>
  \<^verbatim>\<open>movies_dict\<close>: a Python \<^verbatim>\<open>dict\<close> keeps its keys in insertion order, and
  \<^verbatim>\<open>list(movies_dict.values())\<close> is returned, so it is an association list.
\<close>

type_synonym movies_dict = "(string \<times> movie) list"

fun dict_set :: "string \<Rightarrow> movie \<Rightarrow> movies_dict \<Rightarrow> movies_dict" where
  "dict_set k v [] = [(k, v)]"
| "dict_set k v (p # ps) = (if fst p = k then (k, v) # ps else p # dict_set k v ps)"

definition dict_values :: "movies_dict \<Rightarrow> movie list" where
  "dict_values d = map snd d"

definition PAGES :: "nat list" where
  "PAGES = [0..<8]"

definition ui_labels :: "string list" where
  "ui_labels = [''tomatometer'', ''audience score'', ''popcornmeter'', ''score'']"

text \<open>The body of the loop over the links of a page (lines 90 to 132).\<close>

definition process_link :: "(string \<Rightarrow> bool) \<Rightarrow> movies_dict \<Rightarrow> string + link \<Rightarrow> movies_dict" where
  "process_link netloc_valid d c =
     (case c of
        Inl e \<Rightarrow> d
      | Inr l \<Rightarrow>
          if title_count l = 0 then d
          else if inner_text l = [] \<or> strip (inner_text l) = [] then d
          else
            (let t = strip (inner_text l) in
             if lower t \<in> set ui_labels then d
             else
               (case href l of
                  None \<Rightarrow> d
                | Some h \<Rightarrow>
                    if h = [] then d
                    else
                      (let normalized_url = normalize_url netloc_valid h;
                           normalized_title = normalize_title t
                       in if normalized_url = [] \<or> normalized_title = [] then d
                          else if normalized_url \<in> set (map fst d) then d
                          else if normalized_title
                                    \<in> set (map (\<lambda>m. normalize_title (title m)) (dict_values d))
                          then d
                          else dict_set normalized_url
                                 \<lparr>title = t, url = normalized_url\<rparr> d))))"

definition movie_links :: "page_content \<Rightarrow> (string + link) list" where
  "movie_links pc = (if length (primary_links pc) = 0 then fallback_links pc else primary_links pc)"

definition process_content :: "(string \<Rightarrow> bool) \<Rightarrow> movies_dict \<Rightarrow> string + page_content \<Rightarrow> movies_dict" where
  "process_content netloc_valid d c =
     (case c of
        Inl e \<Rightarrow> d
      | Inr pc \<Rightarrow> foldl (process_link netloc_valid) d (movie_links pc))"

text \<open>The loop over \<^verbatim>\<open>PAGES\<close>; \<open>Inl\<close> is an exception that leaves the function.\<close>

fun scrape_pages :: "(string \<Rightarrow> bool) \<Rightarrow> (nat \<Rightarrow> list_page) \<Rightarrow> movies_dict \<Rightarrow> nat list \<Rightarrow> string + movies_dict" where
  "scrape_pages netloc_valid pages d [] = Inr d"
| "scrape_pages netloc_valid pages d (n # ns) =
     (case open_error (pages n) of
        Some e \<Rightarrow> Inl e
      | None \<Rightarrow>
          (let d' = process_content netloc_valid d (content (pages n)) in
           case close_error (pages n) of
             Some e \<Rightarrow> Inl e
           | None \<Rightarrow> scrape_pages netloc_valid pages d' ns))"

definition scrape_list_pages :: "(string \<Rightarrow> bool) \<Rightarrow> list_world \<Rightarrow> string + movie list" where
  "scrape_list_pages netloc_valid w =
     (case list_launch_error w of
        Some e \<Rightarrow> Inl e
      | None \<Rightarrow>
          (case scrape_pages netloc_valid (list_pages w) [] PAGES of
             Inl e \<Rightarrow> Inl e
           | Inr d \<Rightarrow>
               (case list_shutdown_error w of
                  Some e \<Rightarrow> Inl e
                | None \<Rightarrow> Inr (dict_values d))))"

section \<open>The detail extractor\<close>

subsection \<open>Regular expressions of the extractor\<close>

text \<open>\<^verbatim>\<open>re.search(r'(\d{1,3})', s)\<close>: the first one to three digits of the first run.\<close>

definition search_digits3 :: "string \<Rightarrow> string option" where
  "search_digits3 s =
     (let r = dropWhile (\<lambda>c. \<not> is_digit c) s in
      if r = [] then None else Some (take 3 (takeWhile is_digit r)))"

text \<open>\<^verbatim>\<open>re.search(r'(\d+)', s)\<close>: the first run of digits.\<close>

definition search_digits :: "string \<Rightarrow> string option" where
  "search_digits s =
     (let r = dropWhile (\<lambda>c. \<not> is_digit c) s in
      if r = [] then None else Some (takeWhile is_digit r))"

text \<open>
  \<^verbatim>\<open>re.search(r'^(\d{1,3})%?$', s)\<close> on a stripped text: one to three digits, then at
  most a percent sign, and nothing else.
\<close>

definition match_percent :: "string \<Rightarrow> string option" where
  "match_percent s =
     (let ds = takeWhile is_digit s; r = dropWhile is_digit s in
      if 1 \<le> length ds \<and> length ds \<le> 3 \<and> (r = [] \<or> r = ''%'') then Some ds else None)"

text \<open>
  \<^verbatim>\<open>re.sub(r'\s*,\s*Wide$', '', s)\<close> on a stripped text: a final \<^verbatim>\<open>Wide\<close>, the comma
  before it and the white space around the comma are removed.
\<close>

definition strip_wide :: "string \<Rightarrow> string" where
  "strip_wide s =
     (if suffix ''Wide'' s
      then (let a = rstrip_where is_space (take (length s - 4) s) in
            if a \<noteq> [] \<and> last a = CHR '',''
            then rstrip_where is_space (butlast a)
            else s)
      else s)"

text \<open>\<^verbatim>\<open>sep.join(values)\<close>.\<close>

fun join :: "string \<Rightarrow> string list \<Rightarrow> string" where
  "join sep [] = []"
| "join sep [v] = v"
| "join sep (v # w # vs) = v @ sep @ join sep (w # vs)"

subsection \<open>What the rendering engine shows\<close>

text \<open>
  Every call on the page that the code wraps in its own \<^verbatim>\<open>try\<close> is an observation
  \<open>Inl e\<close> (the call raised, with text \<open>e\<close>) or \<open>Inr v\<close> (it returned \<open>v\<close>):
  the text of the two score elements, the texts the in-page script finds (\<open>None\<close> where
  \<^verbatim>\<open>querySelector\<close> returns null), the texts of all \<^verbatim>\<open>rt-text\<close> elements, and the rows
  of the info section. The calls that no inner \<^verbatim>\<open>try\<close> wraps carry an optional error.
\<close>

record info_item =
  label_count :: nat
  label_text :: string
  value_texts :: "string list"

record detail_page =
  launch_error :: "string option"
  viewport_error :: "string option"
  goto_error :: "string option"
  critics_text :: "string + string option"
  audience_text :: "string + string option"
  script_dom :: "string + (string option \<times> string option)"
  rt_texts :: "string + string option list"
  info_section :: "string + (string + info_item) list"
  browser_close_error :: "string option"
  handler_close_error :: "string option"

record metadata = movie +
  tomatometer_score :: "int option"
  audience_score :: "int option"
  genre :: "string option"
  rating :: "string option"
  duration :: "string option"
  release_date :: "string option"
  director :: "string option"
  original_language :: "string option"
  box_office :: "string option"
  distributor :: "string option"
  error :: "string option"

text \<open>
  The two dictionaries the extractor returns: the metadata with its thirteen keys, or the
  dictionary with the three keys \<^verbatim>\<open>url\<close>, \<^verbatim>\<open>title\<close>, \<^verbatim>\<open>error\<close>.
\<close>

datatype result_dict = Metadata metadata | Failure string string string

definition initial_metadata :: "string \<Rightarrow> string \<Rightarrow> metadata" where
  "initial_metadata u t =
     \<lparr>title = t, url = u, tomatometer_score = None, audience_score = None, genre = None,
      rating = None, duration = None, release_date = None, director = None,
      original_language = None, box_office = None, distributor = None, error = None\<rparr>"

subsection \<open>The three tiers of score extraction\<close>

text \<open>Tier 1 (lines 190 to 218): the text of a score element, when it has a score in range.\<close>

definition element_score :: "string + string option \<Rightarrow> int option" where
  "element_score obs =
     (case obs of
        Inl e \<Rightarrow> None
      | Inr None \<Rightarrow> None
      | Inr (Some text) \<Rightarrow>
          if text = [] then None
          else (case search_digits3 (strip text) of
                  None \<Rightarrow> None
                | Some ds \<Rightarrow>
                    (let score = int (int_of_digits ds) in
                     if 0 \<le> score \<and> score \<le> 100 then Some score else None)))"

definition tier1 :: "detail_page \<Rightarrow> metadata \<Rightarrow> metadata" where
  "tier1 pg md =
     (let md1 = (case element_score (critics_text pg) of
                   Some score \<Rightarrow> md\<lparr>tomatometer_score := Some score\<rparr> | None \<Rightarrow> md)
      in case element_score (audience_text pg) of
           Some score \<Rightarrow> md1\<lparr>audience_score := Some score\<rparr> | None \<Rightarrow> md1)"

text \<open>
  Tier 2 (lines 220 to 245). The script: \<^verbatim>\<open>textContent.trim()\<close>, the match of
  \<^verbatim>\<open>/(\d{1,3})/\<close> and \<^verbatim>\<open>parseInt\<close>, for each of the two elements that exists.
\<close>

definition js_space :: "char \<Rightarrow> bool" where
  "js_space c \<longleftrightarrow> c \<in> set [CHR 0x09, CHR 0x0A, CHR 0x0B, CHR 0x0C, CHR 0x0D, CHR '' '']"

definition js_trim :: "string \<Rightarrow> string" where
  "js_trim s = rstrip_where js_space (lstrip_where js_space s)"

record js_scores =
  tomatometer :: "int option"
  audience :: "int option"

definition js_element_score :: "string option \<Rightarrow> int option" where
  "js_element_score el =
     (case el of
        None \<Rightarrow> None
      | Some text \<Rightarrow>
          (case search_digits3 (js_trim text) of
             None \<Rightarrow> None
           | Some ds \<Rightarrow> Some (int (int_of_digits ds))))"

definition evaluate_script :: "string option \<times> string option \<Rightarrow> js_scores" where
  "evaluate_script els =
     \<lparr>tomatometer = js_element_score (fst els), audience = js_element_score (snd els)\<rparr>"

text \<open>The truth value Python gives \<^verbatim>\<open>scores.get(key)\<close>: a number other than zero.\<close>

definition truthy :: "int option \<Rightarrow> bool" where
  "truthy v \<longleftrightarrow> (case v of None \<Rightarrow> False | Some n \<Rightarrow> n \<noteq> 0)"

text \<open>Lines 239 to 242.\<close>

definition assign_js_scores :: "js_scores \<Rightarrow> metadata \<Rightarrow> metadata" where
  "assign_js_scores scores md =
     (let md1 = (if truthy (tomatometer scores) \<and> tomatometer_score md = None
                 then md\<lparr>tomatometer_score := tomatometer scores\<rparr> else md)
      in if truthy (audience scores) \<and> audience_score md1 = None
         then md1\<lparr>audience_score := audience scores\<rparr> else md1)"

definition tier2 :: "detail_page \<Rightarrow> metadata \<Rightarrow> metadata" where
  "tier2 pg md =
     (if tomatometer_score md = None \<or> audience_score md = None
      then (case script_dom pg of
              Inl e \<Rightarrow> md
            | Inr els \<Rightarrow> assign_js_scores (evaluate_script els) md)
      else md)"

text \<open>Tier 3 (lines 247 to 270).\<close>

definition potential_score :: "string option \<Rightarrow> int list" where
  "potential_score t =
     (case t of
        None \<Rightarrow> []
      | Some text \<Rightarrow>
          if text = [] then []
          else (case match_percent (strip text) of
                  None \<Rightarrow> []
                | Some ds \<Rightarrow>
                    (let score = int (int_of_digits ds) in
                     if 0 \<le> score \<and> score \<le> 100 then [score] else [])))"

definition potential_scores :: "string option list \<Rightarrow> int list" where
  "potential_scores texts = concat (map potential_score texts)"

definition tier3 :: "detail_page \<Rightarrow> metadata \<Rightarrow> metadata" where
  "tier3 pg md =
     (if tomatometer_score md = None \<or> audience_score md = None
      then (case rt_texts pg of
              Inl e \<Rightarrow> md
            | Inr texts \<Rightarrow>
                (let ps = potential_scores texts in
                 if length ps = 2
                 then (let ranked = rev (sort ps);
                           md1 = (if tomatometer_score md = None
                                  then md\<lparr>tomatometer_score := Some (ranked ! 0)\<rparr> else md)
                       in if audience_score md1 = None
                          then md1\<lparr>audience_score := Some (ranked ! 1)\<rparr> else md1)
                 else md))
      else md)"

subsection \<open>The info section\<close>

definition field_mappings :: "(string \<times> string list) list" where
  "field_mappings =
     [(''genre'', [''genre'']), (''rating'', [''rating'']), (''runtime'', [''runtime'']),
      (''release date'', [''release date'']), (''director'', [''director'']),
      (''original language'', [''original language'']), (''box office'', [''box office'']),
      (''distributor'', [''distributor''])]"

text \<open>The first field, in the order of the table, one of whose keywords the label contains.\<close>

definition target_field :: "string \<Rightarrow> string option" where
  "target_field label_lower =
     map_option fst
       (find (\<lambda>fk. list_ex (\<lambda>keyword. contains label_lower keyword) (snd fk)) field_mappings)"

text \<open>Lines 313 to 330; \<open>v\<close> is \<^verbatim>\<open>values[0]\<close> of a list that is not empty.\<close>

definition set_field :: "string \<Rightarrow> string \<Rightarrow> string list \<Rightarrow> metadata \<Rightarrow> metadata" where
  "set_field f v vs md =
     (if f = ''genre'' then md\<lparr>genre := Some (join '', '' (v # vs))\<rparr>
      else if f = ''rating'' then md\<lparr>rating := Some v\<rparr>
      else if f = ''runtime'' then md\<lparr>duration := Some (filter (\<lambda>c. c \<noteq> CHR '' '') v)\<rparr>
      else if f = ''release date'' then md\<lparr>release_date := Some (strip_wide v)\<rparr>
      else if f = ''director'' then md\<lparr>director := Some (join '', '' (v # vs))\<rparr>
      else if f = ''original language'' then md\<lparr>original_language := Some v\<rparr>
      else if f = ''box office'' then md\<lparr>box_office := Some v\<rparr>
      else if f = ''distributor'' then md\<lparr>distributor := Some v\<rparr>
      else md)"

definition item_values :: "string list \<Rightarrow> string list" where
  "item_values texts = map strip (filter (\<lambda>t. t \<noteq> [] \<and> strip t \<noteq> []) texts)"

definition process_item :: "metadata \<Rightarrow> string + info_item \<Rightarrow> metadata" where
  "process_item md obs =
     (case obs of
        Inl e \<Rightarrow> md
      | Inr item \<Rightarrow>
          if label_count item > 0
          then (case target_field (strip (lower (label_text item))) of
                  None \<Rightarrow> md
                | Some f \<Rightarrow>
                    (case item_values (value_texts item) of
                       [] \<Rightarrow> md
                     | v # vs \<Rightarrow> set_field f v vs md))
          else md)"

definition extract_fields :: "detail_page \<Rightarrow> metadata \<Rightarrow> metadata" where
  "extract_fields pg md =
     (case info_section pg of
        Inl e \<Rightarrow> md
      | Inr items \<Rightarrow> foldl process_item md items)"

subsection \<open>Sanitation and post-processing\<close>

text \<open>
  Lines 339 to 347. A score is \<^verbatim>\<open>None\<close> or a Python \<^verbatim>\<open>int\<close>, so \<^verbatim>\<open>int(score)\<close>
  returns it and neither \<^verbatim>\<open>ValueError\<close> nor \<^verbatim>\<open>TypeError\<close> arises.
\<close>

definition sanitize_score :: "int option \<Rightarrow> int option" where
  "sanitize_score s =
     (case s of
        None \<Rightarrow> None
      | Some score \<Rightarrow> if \<not> (0 \<le> score \<and> score \<le> 100) then None else Some score)"

definition sanitize_scores :: "metadata \<Rightarrow> metadata" where
  "sanitize_scores md =
     md\<lparr>tomatometer_score := sanitize_score (tomatometer_score md),
        audience_score := sanitize_score (audience_score md)\<rparr>"

text \<open>
  Lines 349 to 359. \<^verbatim>\<open>int\<close> raises \<^verbatim>\<open>ValueError\<close> on more than 4300 digits (the
  interpreter's default limit on the conversion); no \<^verbatim>\<open>try\<close> but the outermost one
  encloses it.
\<close>

definition int_max_str_digits :: nat where
  "int_max_str_digits = 4300"

definition format_duration :: "string \<Rightarrow> string + string" where
  "format_duration d =
     (if \<not> (CHR ''h'' \<in> set (lower d) \<or> CHR ''m'' \<in> set (lower d))
      then (case search_digits d of
              None \<Rightarrow> Inr d
            | Some ds \<Rightarrow>
                if length ds > int_max_str_digits
                then Inl (''Exceeds the limit (4300 digits) for integer string conversion: ''
                          @ ''value has '' @ str_of_nat (length ds)
                          @ '' digits; use sys.set_int_max_str_digits() to increase the limit'')
                else (let minutes = int_of_digits ds in
                      if minutes \<ge> 60
                      then Inr (str_of_nat (minutes div 60) @ ''h '' @
                                str_of_nat (minutes mod 60) @ ''m'')
                      else Inr (str_of_nat minutes @ ''m'')))
      else Inr d)"

definition postprocess_duration :: "metadata \<Rightarrow> string + metadata" where
  "postprocess_duration md =
     (case duration md of
        None \<Rightarrow> Inr md
      | Some d \<Rightarrow>
          if d = [] then Inr md
          else (case format_duration d of
                  Inl e \<Rightarrow> Inl e
                | Inr d' \<Rightarrow> Inr (md\<lparr>duration := Some d'\<rparr>)))"

subsection \<open>The extractor\<close>

text \<open>The body of the outer \<^verbatim>\<open>try\<close> (lines 163 to 370); \<open>Inl\<close> is an exception it raises.\<close>

definition extraction_body :: "detail_page \<Rightarrow> string \<Rightarrow> string \<Rightarrow> string + metadata" where
  "extraction_body pg u t =
     (case viewport_error pg of
        Some e \<Rightarrow> Inl e
      | None \<Rightarrow>
          (case goto_error pg of
             Some e \<Rightarrow> Inl e
           | None \<Rightarrow>
               (let md = sanitize_scores
                           (extract_fields pg
                              (tier3 pg (tier2 pg (tier1 pg (initial_metadata u t)))))
                in case postprocess_duration md of
                     Inl e \<Rightarrow> Inl e
                   | Inr md' \<Rightarrow>
                       (case browser_close_error pg of
                          Some e \<Rightarrow> Inl e
                        | None \<Rightarrow> Inr md'))))"

text \<open>
  \<^verbatim>\<open>scrape_movie_metadata_efficient\<close>. Launching the browser and opening the page
  happen before the \<^verbatim>\<open>try\<close>; the handler closes the browser before it returns the
  failure dictionary. \<open>Inl\<close> is an exception that leaves the function.
\<close>

definition scrape_movie_metadata_efficient :: "detail_page \<Rightarrow> string \<Rightarrow> string \<Rightarrow> string + result_dict" where
  "scrape_movie_metadata_efficient pg u t =
     (case launch_error pg of
        Some e \<Rightarrow> Inl e
      | None \<Rightarrow>
          (case extraction_body pg u t of
             Inr md \<Rightarrow> Inr (Metadata md)
           | Inl e \<Rightarrow>
               (case handler_close_error pg of
                  Some e' \<Rightarrow> Inl e'
                | None \<Rightarrow> Inr (Failure u t e))))"

section \<open>The batch coordinator\<close>

text \<open>
  The task of one movie: the \<^verbatim>\<open>try\<close> inside the semaphore turns an exception of the
  extractor into a failure dictionary. \<open>Inl\<close> is an exception the task itself raises,
  which \<^verbatim>\<open>gather(..., return_exceptions=True)\<close> hands back as a result.
\<close>

definition process_movie_with_semaphore :: "detail_page \<Rightarrow> movie \<Rightarrow> string + result_dict" where
  "process_movie_with_semaphore pg m =
     (case scrape_movie_metadata_efficient pg (url m) (title m) of
        Inr result \<Rightarrow> Inr result
      | Inl e \<Rightarrow> Inr (Failure (url m) (title m) e))"

text \<open>\<^verbatim>\<open>elif result:\<close> a dictionary is true unless it is empty.\<close>

definition dict_truthy :: "result_dict \<Rightarrow> bool" where
  "dict_truthy r = (case r of Metadata md \<Rightarrow> True | Failure u t e \<Rightarrow> True)"

definition chunk_size :: nat where
  "chunk_size = 10"

text \<open>
  The loop over the results of one chunk (lines 416 to 426). \<^verbatim>\<open>movies[i + j]\<close> out of
  range raises \<^verbatim>\<open>IndexError\<close>, which the handler of line 428 catches: the rest of the
  chunk is dropped.
\<close>

fun aggregate :: "movie list \<Rightarrow> nat \<Rightarrow> nat \<Rightarrow> (string + result_dict) list \<Rightarrow> result_dict list \<Rightarrow> result_dict list" where
  "aggregate movies i j [] all_results = all_results"
| "aggregate movies i j (r # rs) all_results =
     (case r of
        Inl e \<Rightarrow>
          if i + j < length movies
          then aggregate movies i (j + 1) rs
                 (all_results @ [Failure (url (movies ! (i + j))) (title (movies ! (i + j))) e])
          else all_results
      | Inr result \<Rightarrow>
          if dict_truthy result then aggregate movies i (j + 1) rs (all_results @ [result])
          else aggregate movies i (j + 1) rs all_results)"

function chunk_loop :: "(string + result_dict) list \<Rightarrow> movie list \<Rightarrow> nat \<Rightarrow> result_dict list \<Rightarrow> result_dict list" where
  "chunk_loop tasks movies i all_results =
     (if i < length tasks
      then chunk_loop tasks movies (i + chunk_size)
             (aggregate movies i 0 (take chunk_size (drop i tasks)) all_results)
      else all_results)"
  by pat_completeness auto
termination
  by (relation "measure (\<lambda>(tasks, movies, i, all_results). length tasks - i)")
     (auto simp: chunk_size_def)

text \<open>
  \<^verbatim>\<open>scrape_all_movies_batch\<close>; \<open>env n\<close> is what the rendering engine shows the task of
  the \<open>n\<close>-th movie. \<^verbatim>\<open>asyncio.Semaphore\<close> raises \<^verbatim>\<open>ValueError\<close> on a negative value;
  with the value 0 no task ever enters, so \<^verbatim>\<open>gather\<close> never completes when there is a
  task.
\<close>

datatype batch_result = Returned "result_dict list" | Raised string | Blocked

definition scrape_all_movies_batch :: "(nat \<Rightarrow> detail_page) \<Rightarrow> movie list \<Rightarrow> int \<Rightarrow> batch_result" where
  "scrape_all_movies_batch env movies max_concurrent =
     (if max_concurrent < 0 then Raised ''Semaphore initial value must be >= 0''
      else if max_concurrent = 0 \<and> movies \<noteq> [] then Blocked
      else Returned
             (chunk_loop
                (map (\<lambda>n. process_movie_with_semaphore (env n) (movies ! n)) [0..<length movies])
                movies 0 []))"

section \<open>The admission gate\<close>

text \<open>
  \<^verbatim>\<open>scrape_all_movies_batch\<close> creates one \<^verbatim>\<open>asyncio.Semaphore(max_concurrent)\<close> and one
  coroutine per movie, whose body is \<^verbatim>\<open>async with semaphore:\<close> around the call of the
  extractor; the loop over the chunks hands ten coroutines at a time to \<^verbatim>\<open>gather\<close> and
  goes on when all of them have finished. The event loop interleaves the tasks. A
  schedule is a list of events: \<open>Dispatch\<close> is \<^verbatim>\<open>gather\<close> starting the next chunk,
  \<open>Acquire n\<close> is task \<open>n\<close> entering the \<^verbatim>\<open>async with\<close> (possible only while the
  semaphore's value is positive, which it decrements), \<open>Release n\<close> is task \<open>n\<close> leaving
  it (the value is incremented). A task is in flight between the two.
\<close>

datatype task_state = Waiting | InFlight | Finished

datatype event = Dispatch | Acquire nat | Release nat

record coordinator =
  sem_value :: nat
  task_states :: "task_state list"
  dispatched :: nat

definition initial_coordinator :: "nat \<Rightarrow> nat \<Rightarrow> coordinator" where
  "initial_coordinator k n = \<lparr>sem_value = k, task_states = replicate n Waiting, dispatched = 0\<rparr>"

definition in_flight :: "coordinator \<Rightarrow> nat" where
  "in_flight s = length (filter (\<lambda>t. t = InFlight) (task_states s))"

definition step :: "coordinator \<Rightarrow> event \<Rightarrow> coordinator option" where
  "step s ev =
     (case ev of
        Dispatch \<Rightarrow>
          if dispatched s < length (task_states s)
             \<and> list_all (\<lambda>t. t = Finished) (take (dispatched s) (task_states s))
          then Some (s\<lparr>dispatched := dispatched s + chunk_size\<rparr>)
          else None
      | Acquire n \<Rightarrow>
          if n < dispatched s \<and> n < length (task_states s) \<and> task_states s ! n = Waiting
             \<and> sem_value s > 0
          then Some (s\<lparr>sem_value := sem_value s - 1,
                       task_states := (task_states s)[n := InFlight]\<rparr>)
          else None
      | Release n \<Rightarrow>
          if n < length (task_states s) \<and> task_states s ! n = InFlight
          then Some (s\<lparr>sem_value := sem_value s + 1,
                       task_states := (task_states s)[n := Finished]\<rparr>)
          else None)"

text \<open>A schedule runs from a state; \<open>None\<close> when one of its events is not possible.\<close>

fun run :: "coordinator \<Rightarrow> event list \<Rightarrow> coordinator option" where
  "run s [] = Some s"
| "run s (ev # evs) = (case step s ev of None \<Rightarrow> None | Some s' \<Rightarrow> run s' evs)"

section \<open>The invariant of the list collector\<close>

text \<open>
  The state of \<^verbatim>\<open>movies_dict\<close> that the loop maintains: no key twice, no normalized
  title twice among the values, and every value stored under its own \<^verbatim>\<open>url\<close>.
\<close>

definition dedup_ok :: "movies_dict \<Rightarrow> bool" where
  "dedup_ok d \<longleftrightarrow>
     distinct (map fst d) \<and>
     distinct (map (\<lambda>m. normalize_title (title m)) (dict_values d)) \<and>
     list_all (\<lambda>p. url (snd p) = fst p) d"

section \<open>Example inputs\<close>

text \<open>
  A detail page whose score elements time out for the critics, where the in-page script
  reads \<^verbatim>\<open>150%\<close> for the critics and the audience element shows \<^verbatim>\<open>87%\<close>.
\<close>

definition page_150 :: detail_page where
  "page_150 =
     \<lparr>launch_error = None, viewport_error = None, goto_error = None,
      critics_text = Inl ''Timeout 5000ms exceeded'', audience_text = Inr (Some ''87%''),
      script_dom = Inr (Some ''150%'', Some ''87%''), rt_texts = Inr [],
      info_section = Inr [], browser_close_error = None, handler_close_error = None\<rparr>"

text \<open>A detail page on which only the in-page script finds score elements, both at 0.\<close>

definition page_zero :: detail_page where
  "page_zero =
     \<lparr>launch_error = None, viewport_error = None, goto_error = None,
      critics_text = Inl ''Timeout 5000ms exceeded'',
      audience_text = Inl ''Timeout 5000ms exceeded'',
      script_dom = Inr (Some ''0%'', Some '' 0% ''), rt_texts = Inr [],
      info_section = Inr [], browser_close_error = None, handler_close_error = None\<rparr>"

text \<open>A complete detail page, with scores and three rows in the info section.\<close>

definition page_full :: detail_page where
  "page_full =
     \<lparr>launch_error = None, viewport_error = None, goto_error = None,
      critics_text = Inr (Some ''93%''), audience_text = Inr (Some ''88%''),
      script_dom = Inr (Some ''93%'', Some ''88%''),
      rt_texts = Inr [Some ''93%'', Some ''88%''],
      info_section =
        Inr [Inr \<lparr>label_count = 1, label_text = ''Genre'', value_texts = [''Sci-Fi'', ''Action'']\<rparr>,
             Inr \<lparr>label_count = 1, label_text = ''Runtime'', value_texts = [''2h 16m'']\<rparr>,
             Inr \<lparr>label_count = 1, label_text = ''Release Date (Theaters)'',
                  value_texts = [''Mar 31, 1999, Wide'']\<rparr>],
      browser_close_error = None, handler_close_error = None\<rparr>"

text \<open>The same page when navigation fails, and when closing the browser at the end fails.\<close>

definition page_unreachable :: detail_page where
  "page_unreachable = page_full\<lparr>goto_error := Some ''Timeout 30000ms exceeded''\<rparr>"

definition page_close_fails :: detail_page where
  "page_close_fails = page_full\<lparr>browser_close_error := Some ''Connection closed''\<rparr>"

text \<open>Navigation fails, and then the handler's own closing of the browser fails too.\<close>

definition page_handler_fails :: detail_page where
  "page_handler_fails = page_unreachable\<lparr>handler_close_error := Some ''Target closed''\<rparr>"

text \<open>The same page when the browser cannot be launched.\<close>

definition page_no_browser :: detail_page where
  "page_no_browser = page_full\<lparr>launch_error := Some ''Executable does not exist''\<rparr>"

definition three_movies :: "movie list" where
  "three_movies =
     [\<lparr>title = ''The Matrix'', url = ''https://www.rottentomatoes.com/m/matrix''\<rparr>,
      \<lparr>title = ''Alien'', url = ''https://www.rottentomatoes.com/m/alien''\<rparr>,
      \<lparr>title = ''Heat'', url = ''https://www.rottentomatoes.com/m/heat_1995''\<rparr>]"

definition three_pages :: "nat \<Rightarrow> detail_page" where
  "three_pages n = (if n = 1 then page_no_browser else page_full)"

text \<open>
  Listing pages: the first one names The Matrix three times (once under another title
  shape, once under another URL shape), has a link that raises and a column header; the
  second one fails to load; the third one has links only under the fallback locator.
\<close>

definition link_of :: "string \<Rightarrow> string \<Rightarrow> string + link" where
  "link_of t h = Inr \<lparr>title_count = 1, inner_text = t, href = Some h\<rparr>"

definition example_pages :: "nat \<Rightarrow> list_page" where
  "example_pages n =
     (if n = 0
      then \<lparr>open_error = None,
            content = Inr \<lparr>primary_links =
                             [link_of ''The Matrix'' ''/m/matrix'',
                              link_of ''THE  MATRIX!'' ''/m/the_matrix'',
                              link_of ''Matrix Reloaded'' ''/m/matrix/?ref=home#top'',
                              Inl ''strict mode violation'',
                              link_of ''Tomatometer'' ''/m/tomatometer'',
                              link_of '' Alien '' ''https://www.rottentomatoes.com/m/alien/''],
                           fallback_links = []\<rparr>,
            close_error = None\<rparr>
      else if n = 1
      then \<lparr>open_error = None, content = Inl ''Timeout 60000ms exceeded'', close_error = None\<rparr>
      else if n = 2
      then \<lparr>open_error = None,
            content = Inr \<lparr>primary_links = [],
                           fallback_links = [link_of ''Heat'' ''/m/heat_1995'',
                                             link_of ''Alien'' ''/m/alien_1979'']\<rparr>,
            close_error = None\<rparr>
      else \<lparr>open_error = None,
            content = Inr \<lparr>primary_links = [], fallback_links = []\<rparr>,
            close_error = None\<rparr>)"

definition example_world :: list_world where
  "example_world =
     \<lparr>list_launch_error = None, list_pages = example_pages, list_shutdown_error = None\<rparr>"

definition example_movies :: "movie list" where
  "example_movies =
     [\<lparr>title = ''The Matrix'', url = ''https://www.rottentomatoes.com/m/matrix''\<rparr>,
      \<lparr>title = ''Alien'', url = ''https://www.rottentomatoes.com/m/alien''\<rparr>,
      \<lparr>title = ''Heat'', url = ''https://www.rottentomatoes.com/m/heat_1995''\<rparr>]"

definition example_dict :: movies_dict where
  "example_dict = map (\<lambda>m. (url m, m)) example_movies"

text \<open>A detail page whose info section has one row, labelled Runtime, with one value.\<close>

definition runtime_page :: "string \<Rightarrow> detail_page" where
  "runtime_page v =
     page_full\<lparr>info_section :=
                 Inr [Inr \<lparr>label_count = 1, label_text = ''Runtime'', value_texts = [v]\<rparr>]\<rparr>"

section \<open>The detail extractor: scores and failures\<close>

lemma postprocess_duration_scores:
  "postprocess_duration md = Inr md' \<Longrightarrow>
     tomatometer_score md' = tomatometer_score md \<and> audience_score md' = audience_score md"
  by (auto simp: postprocess_duration_def split: option.splits if_splits sum.splits)

lemma sanitize_score_range:
  "sanitize_score s = Some v \<Longrightarrow> 0 \<le> v \<and> v \<le> 100"
  by (auto simp: sanitize_score_def split: option.splits if_splits)

lemma extraction_body_scores:
  assumes "extraction_body pg u t = Inr md"
  shows "(\<forall>v. tomatometer_score md = Some v \<longrightarrow> 0 \<le> v \<and> v \<le> 100) \<and>
         (\<forall>v. audience_score md = Some v \<longrightarrow> 0 \<le> v \<and> v \<le> 100)"
proof -
  let ?m = "sanitize_scores
              (extract_fields pg (tier3 pg (tier2 pg (tier1 pg (initial_metadata u t)))))"
  from assms have "postprocess_duration ?m = Inr md"
    by (auto simp: extraction_body_def Let_def split: option.splits sum.splits)
  then have "tomatometer_score md = tomatometer_score ?m"
    and "audience_score md = audience_score ?m"
    using postprocess_duration_scores by blast+
  then show ?thesis
    using sanitize_score_range by (auto simp: sanitize_scores_def)
qed

text \<open>
  Claim C3. In every metadata dictionary the extractor returns, \<^verbatim>\<open>tomatometer_score\<close>
  and \<^verbatim>\<open>audience_score\<close> are each \<^verbatim>\<open>None\<close> or an integer from 0 to 100, and the
  sanitation pass turns every score outside that range into \<^verbatim>\<open>None\<close>.
\<close>

theorem scores_null_or_in_range:
  "(scrape_movie_metadata_efficient pg u t = Inr (Metadata md) \<longrightarrow>
      (tomatometer_score md = None \<or>
         (\<exists>v. tomatometer_score md = Some v \<and> 0 \<le> v \<and> v \<le> 100)) \<and>
      (audience_score md = None \<or>
         (\<exists>v. audience_score md = Some v \<and> 0 \<le> v \<and> v \<le> 100))) \<and>
   (\<not> (0 \<le> s \<and> s \<le> 100) \<longrightarrow> sanitize_score (Some s) = None)"
proof -
  have "extraction_body pg u t = Inr md"
    if "scrape_movie_metadata_efficient pg u t = Inr (Metadata md)"
    using that
    by (auto simp: scrape_movie_metadata_efficient_def split: option.splits sum.splits)
  then show ?thesis
    using extraction_body_scores[of pg u t md]
    by (cases "tomatometer_score md"; cases "audience_score md")
       (auto simp: sanitize_score_def)
qed

lemma page_150_tier2:
  "tomatometer_score (tier2 page_150 (tier1 page_150 (initial_metadata ''u'' ''t''))) = Some 150"
  by code_simp

lemma page_150_result:
  "scrape_movie_metadata_efficient page_150 ''u'' ''t'' =
     Inr (Metadata ((initial_metadata ''u'' ''t'')\<lparr>audience_score := Some 87\<rparr>))"
  by code_simp

text \<open>
  On \<open>page_150\<close> the second tier sets the critics' score to 150; the returned dictionary
  has \<^verbatim>\<open>None\<close> there and 87 for the audience.
\<close>

theorem scores_null_or_in_range_witness:
  "tomatometer_score (tier2 page_150 (tier1 page_150 (initial_metadata ''u'' ''t''))) = Some 150 \<and>
   (\<exists>md. scrape_movie_metadata_efficient page_150 ''u'' ''t'' = Inr (Metadata md) \<and>
         tomatometer_score md = None \<and> audience_score md = Some 87 \<and>
         (audience_score md = None \<or> (\<exists>v. audience_score md = Some v \<and> 0 \<le> v \<and> v \<le> 100))) \<and>
   sanitize_score (Some 150) = None"
proof -
  let ?md = "(initial_metadata ''u'' ''t'')\<lparr>audience_score := Some 87\<rparr>"
  have range: "audience_score ?md = None \<or> (\<exists>v. audience_score ?md = Some v \<and> 0 \<le> v \<and> v \<le> 100)"
    and forced: "sanitize_score (Some 150) = None"
    using scores_null_or_in_range[of page_150 "''u''" "''t''" ?md 150] page_150_result by simp_all
  have "tomatometer_score ?md = None" "audience_score ?md = Some 87"
    by (simp_all add: initial_metadata_def)
  with range forced page_150_tier2 page_150_result show ?thesis by blast
qed

text \<open>
  Claim C8, amended. When navigation fails, or the body of the outer \<^verbatim>\<open>try\<close> raises
  at any later point, and the handler's own \<^verbatim>\<open>browser.close()\<close> does not raise, the
  extractor returns the dictionary with only \<^verbatim>\<open>url\<close>, \<^verbatim>\<open>title\<close> and the error text,
  whatever the page would have shown. When the handler's \<^verbatim>\<open>browser.close()\<close> raises,
  the extractor raises that error and returns nothing.
\<close>

theorem failure_discards_fields:
  "(launch_error pg = None \<and> viewport_error pg = None \<and> goto_error pg = Some e
      \<and> handler_close_error pg = None
      \<longrightarrow> scrape_movie_metadata_efficient pg u t = Inr (Failure u t e)) \<and>
   (launch_error pg = None \<and> extraction_body pg u t = Inl e \<and> handler_close_error pg = None
      \<longrightarrow> scrape_movie_metadata_efficient pg u t = Inr (Failure u t e)) \<and>
   (launch_error pg = None \<and> extraction_body pg u t = Inl e \<and> handler_close_error pg = Some e'
      \<longrightarrow> scrape_movie_metadata_efficient pg u t = Inl e')"
  by (auto simp: scrape_movie_metadata_efficient_def extraction_body_def
      split: option.splits sum.splits)

lemma page_close_fails_body:
  "extraction_body page_close_fails ''u'' ''t'' = Inl ''Connection closed''"
  "extraction_body page_handler_fails ''u'' ''t'' = Inl ''Timeout 30000ms exceeded''"
  by code_simp+

lemma page_full_result:
  "scrape_movie_metadata_efficient page_full ''u'' ''t'' =
     Inr (Metadata
            \<lparr>title = ''t'', url = ''u'', tomatometer_score = Some 93, audience_score = Some 88,
             genre = Some ''Sci-Fi, Action'', rating = None, duration = Some ''2h16m'',
             release_date = Some ''Mar 31, 1999'', director = None, original_language = None,
             box_office = None, distributor = None, error = None\<rparr>)"
  by code_simp

text \<open>
  \<open>page_full\<close> yields scores and three fields; with a navigation failure, or with a
  failure at the very end of the body, nothing of them is returned; and when the handler
  cannot close the browser, no dictionary is returned at all.
\<close>

theorem failure_discards_fields_witness:
  "scrape_movie_metadata_efficient page_unreachable ''u'' ''t''
     = Inr (Failure ''u'' ''t'' ''Timeout 30000ms exceeded'') \<and>
   extraction_body page_close_fails ''u'' ''t'' = Inl ''Connection closed'' \<and>
   scrape_movie_metadata_efficient page_close_fails ''u'' ''t''
     = Inr (Failure ''u'' ''t'' ''Connection closed'') \<and>
   extraction_body page_handler_fails ''u'' ''t'' = Inl ''Timeout 30000ms exceeded'' \<and>
   scrape_movie_metadata_efficient page_handler_fails ''u'' ''t'' = Inl ''Target closed''"
proof -
  have nav: "launch_error page_unreachable = None \<and> viewport_error page_unreachable = None
             \<and> goto_error page_unreachable = Some ''Timeout 30000ms exceeded''
             \<and> handler_close_error page_unreachable = None"
    by (simp add: page_unreachable_def page_full_def)
  have late: "launch_error page_close_fails = None \<and> handler_close_error page_close_fails = None"
    by (simp add: page_close_fails_def page_full_def)
  have twice: "launch_error page_handler_fails = None
               \<and> handler_close_error page_handler_fails = Some ''Target closed''"
    by (simp add: page_handler_fails_def page_unreachable_def page_full_def)
  show ?thesis
    using failure_discards_fields[of page_unreachable "''Timeout 30000ms exceeded''" "''u''" "''t''"]
      failure_discards_fields[of page_close_fails "''Connection closed''" "''u''" "''t''"]
      failure_discards_fields[of page_handler_fails "''Timeout 30000ms exceeded''" "''u''" "''t''"
        "''Target closed''"]
      nav late twice page_close_fails_body
    by blast
qed

lemma page_handler_fails_result:
  "goto_error page_handler_fails = Some ''Timeout 30000ms exceeded''"
  "scrape_movie_metadata_efficient page_handler_fails ''u'' ''t'' = Inl ''Target closed''"
  by code_simp+

text \<open>
  Claim C8 as stated fails: the handler closes the browser before it returns (line 374),
  outside every \<^verbatim>\<open>try\<close>; when navigation has failed and that call raises as well, the
  extractor raises and no failure dictionary is returned.
\<close>

theorem failure_record_not_returned:
  "goto_error page_handler_fails = Some ''Timeout 30000ms exceeded'' \<and>
   scrape_movie_metadata_efficient page_handler_fails ''u'' ''t'' = Inl ''Target closed'' \<and>
   (\<forall>e. scrape_movie_metadata_efficient page_handler_fails ''u'' ''t''
          \<noteq> Inr (Failure ''u'' ''t'' e))"
  unfolding page_handler_fails_result by simp

text \<open>
  Claim C10. The second tier never assigns a score of 0: when the script returns 0 for a
  score that is still unset, the second tier leaves that score \<^verbatim>\<open>None\<close>, and a score
  that is 0 after the second tier was 0 before it.
\<close>

theorem tier2_skips_zero:
  "(script_dom pg = Inr els \<and> tomatometer (evaluate_script els) = Some 0
      \<and> tomatometer_score md = None
      \<longrightarrow> tomatometer_score (tier2 pg md) = None) \<and>
   (script_dom pg = Inr els \<and> audience (evaluate_script els) = Some 0
      \<and> audience_score md = None
      \<longrightarrow> audience_score (tier2 pg md) = None) \<and>
   (tomatometer_score (tier2 pg md) = Some 0 \<longrightarrow> tomatometer_score md = Some 0) \<and>
   (audience_score (tier2 pg md) = Some 0 \<longrightarrow> audience_score md = Some 0)"
  by (auto simp: tier2_def assign_js_scores_def truthy_def Let_def
      split: sum.splits if_splits option.splits)

lemma page_zero_script:
  "script_dom page_zero = Inr (Some ''0%'', Some '' 0% '') \<and>
   tomatometer (evaluate_script (Some ''0%'', Some '' 0% '')) = Some 0 \<and>
   audience (evaluate_script (Some ''0%'', Some '' 0% '')) = Some 0"
  by code_simp

theorem tier2_skips_zero_witness:
  "tomatometer (evaluate_script (Some ''0%'', Some '' 0% '')) = Some 0 \<and>
   audience (evaluate_script (Some ''0%'', Some '' 0% '')) = Some 0 \<and>
   tomatometer_score (tier2 page_zero (initial_metadata ''u'' ''t'')) = None \<and>
   audience_score (tier2 page_zero (initial_metadata ''u'' ''t'')) = None"
proof -
  have unset: "tomatometer_score (initial_metadata ''u'' ''t'') = None"
    "audience_score (initial_metadata ''u'' ''t'') = None"
    by (simp_all add: initial_metadata_def)
  show ?thesis
    using tier2_skips_zero[of page_zero "(Some ''0%'', Some '' 0% '')" "initial_metadata ''u'' ''t''"]
      page_zero_script unset
    by blast
qed

section \<open>The list collector: deduplication\<close>

lemma dict_set_new: "k \<notin> set (map fst d) \<Longrightarrow> dict_set k v d = d @ [(k, v)]"
  by (induction d) auto

lemma dedup_ok_urls: "dedup_ok d \<Longrightarrow> map url (dict_values d) = map fst d"
  by (induction d) (auto simp: dedup_ok_def dict_values_def)

text \<open>A link either leaves the dictionary as it is or appends an entry with two new keys.\<close>

lemma process_link_cases:
  "process_link nv d c = d \<or>
   (\<exists>l h. c = Inr l \<and> href l = Some h \<and>
      normalize_url nv h \<notin> set (map fst d) \<and>
      normalize_title (strip (inner_text l))
        \<notin> set (map (\<lambda>m. normalize_title (title m)) (dict_values d)) \<and>
      process_link nv d c =
        d @ [(normalize_url nv h, \<lparr>title = strip (inner_text l), url = normalize_url nv h\<rparr>)])"
  by (auto simp: process_link_def Let_def dict_set_new split: sum.splits option.splits)

lemma process_link_dedup_ok: "dedup_ok d \<Longrightarrow> dedup_ok (process_link nv d c)"
  using process_link_cases[of nv d c]
  by (auto simp: dedup_ok_def dict_values_def)

lemma foldl_process_link_dedup_ok:
  "dedup_ok d \<Longrightarrow> dedup_ok (foldl (process_link nv) d cs)"
  by (induction cs arbitrary: d) (auto simp: process_link_dedup_ok)

lemma process_content_dedup_ok: "dedup_ok d \<Longrightarrow> dedup_ok (process_content nv d c)"
  by (auto simp: process_content_def foldl_process_link_dedup_ok split: sum.splits)

lemma scrape_pages_dedup_ok:
  "dedup_ok d \<Longrightarrow> scrape_pages nv pages d ns = Inr d' \<Longrightarrow> dedup_ok d'"
proof (induction ns arbitrary: d)
  case Nil
  then show ?case by simp
next
  case (Cons n ns)
  then show ?case
    using process_content_dedup_ok[of d nv "content (pages n)"]
    by (auto simp: Let_def split: option.splits)
qed

lemma dedup_ok_empty: "dedup_ok []"
  by (simp add: dedup_ok_def dict_values_def)

text \<open>
  Claim C2. No two entries of the sequence \<^verbatim>\<open>scrape_list_pages\<close> returns share a
  normalized URL or a normalized title; the same holds of the accepted entries after
  any sequence of links processed from the empty dictionary, that is at every point of a
  run; and a link whose normalized URL or normalized title is already among the accepted
  entries leaves the dictionary unchanged.
\<close>

theorem no_shared_keys:
  "(scrape_list_pages nv w = Inr ms \<longrightarrow>
      distinct (map url ms) \<and> distinct (map (\<lambda>m. normalize_title (title m)) ms)) \<and>
   (let ms' = dict_values (foldl (process_link nv) [] cs) in
      distinct (map url ms') \<and> distinct (map (\<lambda>m. normalize_title (title m)) ms')) \<and>
   (dedup_ok d \<and> href l = Some h \<and>
      (normalize_url nv h \<in> set (map url (dict_values d)) \<or>
       normalize_title (strip (inner_text l))
         \<in> set (map (\<lambda>m. normalize_title (title m)) (dict_values d)))
      \<longrightarrow> process_link nv d (Inr l) = d)"
proof -
  have fin: "distinct (map url (dict_values d')) \<and>
             distinct (map (\<lambda>m. normalize_title (title m)) (dict_values d'))"
    if "dedup_ok d'" for d'
    using that dedup_ok_urls[OF that] by (simp add: dedup_ok_def)
  have 1: "scrape_list_pages nv w = Inr ms \<longrightarrow>
      distinct (map url ms) \<and> distinct (map (\<lambda>m. normalize_title (title m)) ms)"
    using fin scrape_pages_dedup_ok[OF dedup_ok_empty]
    by (auto simp: scrape_list_pages_def split: option.splits sum.splits)
  have 2: "let ms' = dict_values (foldl (process_link nv) [] cs) in
      distinct (map url ms') \<and> distinct (map (\<lambda>m. normalize_title (title m)) ms')"
    using fin[OF foldl_process_link_dedup_ok[OF dedup_ok_empty]] by (simp add: Let_def)
  have 3: "dedup_ok d \<and> href l = Some h \<and>
      (normalize_url nv h \<in> set (map url (dict_values d)) \<or>
       normalize_title (strip (inner_text l))
         \<in> set (map (\<lambda>m. normalize_title (title m)) (dict_values d)))
      \<longrightarrow> process_link nv d (Inr l) = d"
  proof (intro impI, elim conjE)
    assume ok: "dedup_ok d" and h: "href l = Some h"
      and seen: "normalize_url nv h \<in> set (map url (dict_values d)) \<or>
       normalize_title (strip (inner_text l))
         \<in> set (map (\<lambda>m. normalize_title (title m)) (dict_values d))"
    have "set (map url (dict_values d)) = set (map fst d)"
      using dedup_ok_urls[OF ok] by simp
    with seen h show "process_link nv d (Inr l) = d"
      using process_link_cases[of nv d "Inr l"] by auto
  qed
  from 1 2 3 show ?thesis by blast
qed

lemma example_world_result:
  "scrape_list_pages (\<lambda>n. True) example_world = Inr example_movies"
  by code_simp

lemma example_dict_facts:
  "dedup_ok example_dict"
  "href \<lparr>title_count = 1, inner_text = ''the matrix'', href = Some ''/m/matrix_1999''\<rparr>
     = Some ''/m/matrix_1999''"
  "normalize_title (strip (inner_text
       \<lparr>title_count = 1, inner_text = ''the matrix'', href = Some ''/m/matrix_1999''\<rparr>))
     \<in> set (map (\<lambda>m. normalize_title (title m)) (dict_values example_dict))"
  by code_simp+

text \<open>
  The example pages yield three movies out of seven links that carry a title; a further
  link to The Matrix under a new URL is rejected by its title.
\<close>

theorem no_shared_keys_witness:
  "scrape_list_pages (\<lambda>n. True) example_world = Inr example_movies \<and>
   distinct (map url example_movies) \<and>
   distinct (map (\<lambda>m. normalize_title (title m)) example_movies) \<and>
   dedup_ok example_dict \<and>
   process_link (\<lambda>n. True) example_dict
     (Inr \<lparr>title_count = 1, inner_text = ''the matrix'', href = Some ''/m/matrix_1999''\<rparr>)
     = example_dict"
  using no_shared_keys[of "\<lambda>n. True" example_world example_movies "[]" example_dict
      "\<lparr>title_count = 1, inner_text = ''the matrix'', href = Some ''/m/matrix_1999''\<rparr>"
      "''/m/matrix_1999''"]
    example_world_result example_dict_facts
  by blast

section \<open>The batch coordinator: one outcome per movie\<close>

lemma aggregate_returned:
  "list_all (\<lambda>r. \<not> isl r) rs \<Longrightarrow> aggregate movies i j rs acc = acc @ map projr rs"
proof (induction rs arbitrary: j acc)
  case Nil
  then show ?case by simp
next
  case (Cons r rs)
  then show ?case by (cases r) (auto simp: dict_truthy_def split: result_dict.splits)
qed

lemma chunk_loop_returned:
  "list_all (\<lambda>r. \<not> isl r) tasks \<Longrightarrow>
     chunk_loop tasks movies i acc = acc @ map projr (drop i tasks)"
proof (induction tasks movies i acc rule: chunk_loop.induct)
  case (1 tasks movies i acc)
  show ?case
  proof (cases "i < length tasks")
    case True
    have all: "list_all (\<lambda>r. \<not> isl r) (take chunk_size (drop i tasks))"
      using "1.prems" by (auto simp: list_all_iff dest: in_set_takeD in_set_dropD)
    have split: "take chunk_size (drop i tasks) @ drop (i + chunk_size) tasks = drop i tasks"
      by (metis add.commute append_take_drop_id drop_drop)
    have "chunk_loop tasks movies i acc =
            chunk_loop tasks movies (i + chunk_size)
              (aggregate movies i 0 (take chunk_size (drop i tasks)) acc)"
      using True by (subst chunk_loop.simps) simp
    also have "\<dots> = aggregate movies i 0 (take chunk_size (drop i tasks)) acc
                     @ map projr (drop (i + chunk_size) tasks)"
      using "1.IH"[OF True "1.prems"] .
    also have "\<dots> = acc @ map projr (take chunk_size (drop i tasks) @ drop (i + chunk_size) tasks)"
      using aggregate_returned[OF all] by simp
    finally show ?thesis using split by simp
  next
    case False
    then show ?thesis by (subst chunk_loop.simps) simp
  qed
qed

lemma task_returns: "\<not> isl (process_movie_with_semaphore pg m)"
  by (simp add: process_movie_with_semaphore_def split: sum.splits)

text \<open>
  Claim C1. For every list of movies and every \<^verbatim>\<open>max_concurrent\<close> of at least 1 the
  batch coordinator returns, with as many results as there are movies; the result of a
  movie is what the extractor returns for it, and when the extractor raises, it is the
  failure dictionary with that movie's \<^verbatim>\<open>url\<close> and \<^verbatim>\<open>title\<close> and the error text.
\<close>

theorem one_outcome_per_movie:
  assumes "1 \<le> max_concurrent"
  shows "\<exists>results. scrape_all_movies_batch env movies max_concurrent = Returned results \<and>
           length results = length movies \<and>
           (\<forall>n < length movies.
              results ! n =
                (case scrape_movie_metadata_efficient (env n)
                        (url (movies ! n)) (title (movies ! n)) of
                   Inr r \<Rightarrow> r
                 | Inl e \<Rightarrow> Failure (url (movies ! n)) (title (movies ! n)) e))"
proof -
  let ?tasks = "map (\<lambda>n. process_movie_with_semaphore (env n) (movies ! n)) [0..<length movies]"
  have "list_all (\<lambda>r. \<not> isl r) ?tasks"
    by (simp add: list_all_iff task_returns)
  then have "chunk_loop ?tasks movies 0 [] = map projr ?tasks"
    using chunk_loop_returned[of ?tasks movies 0 "[]"] by simp
  moreover have "scrape_all_movies_batch env movies max_concurrent
                   = Returned (chunk_loop ?tasks movies 0 [])"
    using assms by (simp add: scrape_all_movies_batch_def)
  ultimately have "scrape_all_movies_batch env movies max_concurrent
                     = Returned (map projr ?tasks)"
    by simp
  moreover have "length (map projr ?tasks) = length movies" by simp
  moreover have "\<forall>n < length movies. map projr ?tasks ! n =
                (case scrape_movie_metadata_efficient (env n)
                        (url (movies ! n)) (title (movies ! n)) of
                   Inr r \<Rightarrow> r
                 | Inl e \<Rightarrow> Failure (url (movies ! n)) (title (movies ! n)) e)"
    by (auto simp: process_movie_with_semaphore_def split: sum.splits)
  ultimately show ?thesis by blast
qed

lemma three_movies_extractions:
  "length three_movies = 3"
  "scrape_movie_metadata_efficient (three_pages 0)
     (url (three_movies ! 0)) (title (three_movies ! 0))
     = Inr (Metadata
         \<lparr>title = ''The Matrix'', url = ''https://www.rottentomatoes.com/m/matrix'',
          tomatometer_score = Some 93, audience_score = Some 88,
          genre = Some ''Sci-Fi, Action'', rating = None, duration = Some ''2h16m'',
          release_date = Some ''Mar 31, 1999'', director = None, original_language = None,
          box_office = None, distributor = None, error = None\<rparr>)"
  "scrape_movie_metadata_efficient (three_pages 1)
     (url (three_movies ! 1)) (title (three_movies ! 1)) = Inl ''Executable does not exist''"
  "scrape_movie_metadata_efficient (three_pages 2)
     (url (three_movies ! 2)) (title (three_movies ! 2))
     = Inr (Metadata
         \<lparr>title = ''Heat'', url = ''https://www.rottentomatoes.com/m/heat_1995'',
          tomatometer_score = Some 93, audience_score = Some 88,
          genre = Some ''Sci-Fi, Action'', rating = None, duration = Some ''2h16m'',
          release_date = Some ''Mar 31, 1999'', director = None, original_language = None,
          box_office = None, distributor = None, error = None\<rparr>)"
  "url (three_movies ! 1) = ''https://www.rottentomatoes.com/m/alien''"
  "title (three_movies ! 1) = ''Alien''"
  by code_simp+

text \<open>
  Three movies, the browser of the second one failing to launch: three results, the
  second one the failure dictionary of that movie.
\<close>

theorem one_outcome_per_movie_witness:
  "(1::int) \<le> 3 \<and>
   (\<exists>results. scrape_all_movies_batch three_pages three_movies 3 = Returned results \<and>
      length results = 3 \<and>
      (\<exists>md. results ! 0 = Metadata md \<and> title md = ''The Matrix'') \<and>
      results ! 1 = Failure ''https://www.rottentomatoes.com/m/alien'' ''Alien''
                      ''Executable does not exist'' \<and>
      (\<exists>md. results ! 2 = Metadata md \<and> title md = ''Heat''))"
proof -
  obtain results where r: "scrape_all_movies_batch three_pages three_movies 3 = Returned results"
    "length results = length three_movies"
    "\<forall>n < length three_movies.
       results ! n =
         (case scrape_movie_metadata_efficient (three_pages n)
                 (url (three_movies ! n)) (title (three_movies ! n)) of
            Inr r \<Rightarrow> r
          | Inl e \<Rightarrow> Failure (url (three_movies ! n)) (title (three_movies ! n)) e)"
    using one_outcome_per_movie[of 3 three_pages three_movies] by auto
  have "\<exists>md. results ! 0 = Metadata md \<and> title md = ''The Matrix''"
    using r(3) three_movies_extractions(1,2) by simp
  moreover have "results ! 1 = Failure ''https://www.rottentomatoes.com/m/alien'' ''Alien''
                      ''Executable does not exist''"
    using r(3) three_movies_extractions(1,3,5,6) by simp
  moreover have "\<exists>md. results ! 2 = Metadata md \<and> title md = ''Heat''"
    using r(3) three_movies_extractions(1,4) by simp
  ultimately show ?thesis
    using r(1,2) three_movies_extractions(1) by auto
qed

section \<open>The admission gate: bounded concurrency\<close>

lemma in_flight_enter:
  "n < length ts \<Longrightarrow> ts ! n \<noteq> InFlight \<Longrightarrow>
     length (filter (\<lambda>t. t = InFlight) (ts[n := InFlight]))
       = Suc (length (filter (\<lambda>t. t = InFlight) ts))"
  by (induction ts arbitrary: n) (auto split: nat.splits)

lemma in_flight_leave:
  "n < length ts \<Longrightarrow> ts ! n = InFlight \<Longrightarrow>
     Suc (length (filter (\<lambda>t. t = InFlight) (ts[n := Finished])))
       = length (filter (\<lambda>t. t = InFlight) ts)"
  by (induction ts arbitrary: n) (auto split: nat.splits)

lemma step_conserves:
  "step s ev = Some s' \<Longrightarrow> in_flight s' + sem_value s' = in_flight s + sem_value s"
  using in_flight_enter[of _ "task_states s"] in_flight_leave[of _ "task_states s"]
  by (auto simp: step_def in_flight_def split: event.splits if_splits)

lemma run_conserves:
  "run s evs = Some s' \<Longrightarrow> in_flight s' + sem_value s' = in_flight s + sem_value s"
proof (induction evs arbitrary: s)
  case Nil
  then show ?case by simp
next
  case (Cons ev evs)
  then obtain s1 where s1: "step s ev = Some s1" "run s1 evs = Some s'"
    by (auto split: option.splits)
  then show ?case using Cons.IH[of s1] step_conserves[of s ev s1] by simp
qed

lemma in_flight_initial: "in_flight (initial_coordinator k n) = 0"
  by (simp add: initial_coordinator_def in_flight_def)

lemma sem_value_initial: "sem_value (initial_coordinator k n) = k"
  by (simp add: initial_coordinator_def)

text \<open>
  Claim C9. With \<^verbatim>\<open>max_concurrent = k\<close>, after every schedule of the coordinator at
  most \<open>k\<close> extractions are in flight, each holding one of the \<open>k\<close> slots of the
  semaphore (the tasks in flight and the free slots add up to \<open>k\<close>); a task enters only
  from waiting, taking a slot, and no task enters while no slot is free.
\<close>

theorem bounded_in_flight:
  "(run (initial_coordinator k n) evs = Some s \<longrightarrow>
      in_flight s \<le> k \<and> in_flight s + sem_value s = k) \<and>
   (sem_value s = 0 \<longrightarrow> step s (Acquire i) = None) \<and>
   (step s (Acquire i) = Some s' \<longrightarrow>
      task_states s ! i = Waiting \<and> task_states s' ! i = InFlight
      \<and> sem_value s' + 1 = sem_value s)"
proof -
  have "in_flight s + sem_value s = k" if "run (initial_coordinator k n) evs = Some s"
    using run_conserves[OF that] by (simp add: in_flight_initial sem_value_initial)
  then show ?thesis
    by (auto simp: step_def split: if_splits)
qed

lemma example_schedule:
  "run (initial_coordinator 2 3) [Dispatch, Acquire 0, Acquire 1, Release 0, Acquire 2]
     = Some \<lparr>sem_value = 0, task_states = [Finished, InFlight, InFlight], dispatched = 10\<rparr>"
  "step \<lparr>sem_value = 1, task_states = [Finished, InFlight, Waiting], dispatched = 10\<rparr> (Acquire 2)
     = Some \<lparr>sem_value = 0, task_states = [Finished, InFlight, InFlight], dispatched = 10\<rparr>"
  by code_simp+

text \<open>
  Three tasks and two slots: after the schedule two tasks are in flight and no slot is
  free, so the third could enter only after the first had left.
\<close>

theorem bounded_in_flight_witness:
  "run (initial_coordinator 2 3) [Dispatch, Acquire 0, Acquire 1, Release 0, Acquire 2]
     = Some \<lparr>sem_value = 0, task_states = [Finished, InFlight, InFlight], dispatched = 10\<rparr> \<and>
   in_flight \<lparr>sem_value = 0, task_states = [Finished, InFlight, InFlight], dispatched = 10\<rparr> \<le> 2 \<and>
   step \<lparr>sem_value = 0, task_states = [Finished, InFlight, InFlight], dispatched = 10\<rparr> (Acquire 0)
     = None \<and>
   sem_value \<lparr>sem_value = 0, task_states = [Finished, InFlight, InFlight], dispatched = 10\<rparr> + 1
     = sem_value \<lparr>sem_value = 1, task_states = [Finished, InFlight, Waiting], dispatched = 10\<rparr>"
  using example_schedule
    bounded_in_flight[of 2 3 "[Dispatch, Acquire 0, Acquire 1, Release 0, Acquire 2]"
      "\<lparr>sem_value = 0, task_states = [Finished, InFlight, InFlight], dispatched = 10\<rparr>" 0]
    bounded_in_flight[of 2 3 "[]"
      "\<lparr>sem_value = 1, task_states = [Finished, InFlight, Waiting], dispatched = 10\<rparr>" 2
      "\<lparr>sem_value = 0, task_states = [Finished, InFlight, InFlight], dispatched = 10\<rparr>"]
  by simp

section \<open>URL normalisation: what is stripped and what is kept\<close>

lemma set_rstrip_where: "set (rstrip_where P s) \<subseteq> set s"
  by (auto simp: rstrip_where_def dest: set_dropWhileD)

lemma rstrip_where_last: "rstrip_where P s \<noteq> [] \<Longrightarrow> \<not> P (last (rstrip_where P s))"
  by (simp add: rstrip_where_def last_rev hd_dropWhile)

lemma rstrip_where_keep:
  "a \<noteq> [] \<Longrightarrow> \<not> P (last a) \<Longrightarrow> rstrip_where P (a @ b) = a @ rstrip_where P b"
proof (cases "\<forall>x \<in> set b. P x")
  case True
  assume a: "a \<noteq> []" "\<not> P (last a)"
  then have "dropWhile P (rev a) = rev a"
    by (cases "rev a") (auto simp: last_rev[symmetric] hd_rev)
  moreover have "dropWhile P (rev b @ rev a) = dropWhile P (rev a)"
    using True by (intro dropWhile_append2) simp
  moreover have "dropWhile P (rev b) = []"
    using True by simp
  ultimately show ?thesis
    by (simp add: rstrip_where_def)
next
  case False
  then show ?thesis
    by (auto simp: rstrip_where_def dropWhile_append1)
qed

lemma prefix_rstrip_where: "prefix (rstrip_where P s) s"
proof -
  have "rev s = takeWhile P (rev s) @ dropWhile P (rev s)" by simp
  then have "s = rev (dropWhile P (rev s)) @ rev (takeWhile P (rev s))"
    by (metis rev_append rev_rev_ident)
  then show ?thesis
    unfolding rstrip_where_def by (metis prefixI)
qed

lemma before_char_notin: "c \<notin> set (before_char c s)"
  by (auto simp: before_char_def dest: set_takeWhileD)

lemma set_before_char: "set (before_char c s) \<subseteq> set s"
  by (auto simp: before_char_def dest: set_takeWhileD)

lemma prefix_before_char: "prefix (before_char c s) s"
  by (metis before_char_def prefixI takeWhile_dropWhile_id)

lemma prefix_splitparams: "prefix (splitparams p) p"
proof -
  let ?seg = "last_segment p"
  have seg: "p = take (length p - length ?seg) p @ ?seg"
  proof -
    have "rev p = takeWhile (\<lambda>c. c \<noteq> CHR ''/'') (rev p) @ dropWhile (\<lambda>c. c \<noteq> CHR ''/'') (rev p)"
      by simp
    then have "p = rev (dropWhile (\<lambda>c. c \<noteq> CHR ''/'') (rev p)) @ ?seg"
      unfolding last_segment_def by (metis rev_append rev_rev_ident)
    then show ?thesis
      by (metis append_eq_conv_conj length_append add_diff_cancel_right')
  qed
  have "prefix (take (length p - length ?seg) p @ before_char CHR '';'' ?seg) p"
    using prefix_before_char[of "CHR '';''" ?seg] seg
    by (metis same_prefix_prefix)
  then show ?thesis
    by (auto simp: splitparams_def Let_def prefix_before_char)
qed

lemma lower_char_scheme: "c \<in> set scheme_chars \<Longrightarrow> lower_char c \<in> set scheme_chars"
  by (auto simp: lower_char_def scheme_chars_def ascii_upper_def ascii_lower_def ascii_digits_def)

lemma split_scheme_chars: "set (fst (split_scheme u)) \<subseteq> set scheme_chars"
  by (auto simp: split_scheme_def Let_def lower_def list_all_iff lower_char_scheme)

lemma split_netloc_chars: "c \<in> set (fst (split_netloc u)) \<Longrightarrow> \<not> is_delim c"
  by (auto simp: split_netloc_def dest: set_takeWhileD split: if_splits)

lemma notin_rstrip_where: "c \<notin> set s \<Longrightarrow> c \<notin> set (rstrip_where P s)"
  using set_rstrip_where[of P s] by blast

lemma urlsplit_unfold:
  "urlsplit nv u =
     (let u2 = filter (\<lambda>c. \<not> unsafe_url_byte c) (lstrip_where c0_control_or_space u);
          u3 = snd (split_scheme u2);
          u4 = snd (split_netloc u3)
      in if netloc_raises nv (fst (split_netloc u3)) then Inl ''ValueError''
         else Inr \<lparr>scheme = fst (split_scheme u2), netloc = fst (split_netloc u3),
                   path = before_char CHR ''?'' (before_char CHR ''#'' u4),
                   query = after_char CHR ''?'' (before_char CHR ''#'' u4),
                   fragment = after_char CHR ''#'' u4\<rparr>)"
  unfolding urlsplit_def Let_def by (simp only: case_prod_beta)

lemma urlsplit_fields:
  assumes "urlsplit nv u = Inr r"
  shows "set (scheme r) \<subseteq> set scheme_chars"
    and "\<forall>c \<in> set (netloc r). \<not> is_delim c"
    and "CHR ''?'' \<notin> set (path r)" and "CHR ''#'' \<notin> set (path r)"
proof -
  let ?u2 = "filter (\<lambda>c. \<not> unsafe_url_byte c) (lstrip_where c0_control_or_space u)"
  let ?u3 = "snd (split_scheme ?u2)"
  let ?u4 = "snd (split_netloc ?u3)"
  from assms have r: "scheme r = fst (split_scheme ?u2)" "netloc r = fst (split_netloc ?u3)"
    "path r = before_char CHR ''?'' (before_char CHR ''#'' ?u4)"
    unfolding urlsplit_unfold Let_def by (auto split: if_splits)
  show "set (scheme r) \<subseteq> set scheme_chars"
    unfolding r(1) by (rule split_scheme_chars)
  show "\<forall>c \<in> set (netloc r). \<not> is_delim c"
    unfolding r(2) using split_netloc_chars by blast
  show "CHR ''?'' \<notin> set (path r)"
    unfolding r(3) by (rule before_char_notin)
  have "CHR ''#'' \<notin> set (before_char CHR ''#'' ?u4)" by (rule before_char_notin)
  then show "CHR ''#'' \<notin> set (path r)"
    unfolding r(3) using set_before_char[of "CHR ''?''" "before_char CHR ''#'' ?u4"] by blast
qed

lemma urlparse_fields:
  assumes "urlparse nv u = Inr r"
  shows "set (scheme r) \<subseteq> set scheme_chars"
    and "\<forall>c \<in> set (netloc r). \<not> is_delim c"
    and "CHR ''?'' \<notin> set (path r)" and "CHR ''#'' \<notin> set (path r)"
proof -
  from assms obtain r0 where r0: "urlsplit nv u = Inr r0"
    and r: "r = r0 \<or> r = r0\<lparr>path := splitparams (path r0)\<rparr>"
    by (auto simp: urlparse_def split: sum.splits if_splits)
  have sub: "set (splitparams (path r0)) \<subseteq> set (path r0)"
    using prefix_splitparams[of "path r0"] by (rule set_mono_prefix)
  show "set (scheme r) \<subseteq> set scheme_chars" using r urlsplit_fields(1)[OF r0] by auto
  show "\<forall>c \<in> set (netloc r). \<not> is_delim c" using r urlsplit_fields(2)[OF r0] by auto
  show "CHR ''?'' \<notin> set (path r)" using r urlsplit_fields(3)[OF r0] sub by auto
  show "CHR ''#'' \<notin> set (path r)" using r urlsplit_fields(4)[OF r0] sub by auto
qed

lemma normalize_url_unfold:
  "u \<noteq> [] \<Longrightarrow> normalize_url nv u = (case urlparse nv (resolved u) of
              Inr parsed \<Rightarrow>
                rstrip_where is_slash (scheme parsed @ ''://'' @ netloc parsed @ path parsed)
            | Inl e \<Rightarrow>
                rstrip_where is_slash (before_char CHR ''#'' (before_char CHR ''?'' (resolved u))))"
  by (simp add: normalize_url_def)

lemma normalize_url_shape: "\<exists>s. normalize_url nv u = rstrip_where is_slash s"
proof (cases "u = []")
  case True
  then have "normalize_url nv u = rstrip_where is_slash []"
    by (simp add: normalize_url_def rstrip_where_def)
  then show ?thesis ..
next
  case False
  show ?thesis
    unfolding normalize_url_unfold[OF False] by (cases "urlparse nv (resolved u)") auto
qed

lemma normalize_url_no_query_fragment:
  "CHR ''?'' \<notin> set (normalize_url nv u) \<and> CHR ''#'' \<notin> set (normalize_url nv u)"
proof (cases "u = []")
  case True
  then show ?thesis by (simp add: normalize_url_def)
next
  case False
  note N = normalize_url_unfold[OF False, of nv]
  let ?v = "resolved u"
  show ?thesis
  proof (cases "urlparse nv ?v")
    case (Inl e)
    have "CHR ''?'' \<notin> set (before_char CHR ''?'' ?v)" by (rule before_char_notin)
    then have "CHR ''?'' \<notin> set (before_char CHR ''#'' (before_char CHR ''?'' ?v))"
      using set_before_char[of "CHR ''#''" "before_char CHR ''?'' ?v"] by blast
    moreover have "CHR ''#'' \<notin> set (before_char CHR ''#'' (before_char CHR ''?'' ?v))"
      by (rule before_char_notin)
    ultimately show ?thesis
      unfolding N Inl by (simp add: notin_rstrip_where)
  next
    case (Inr r)
    have "CHR ''?'' \<notin> set scheme_chars" "CHR ''#'' \<notin> set scheme_chars"
      by (simp_all add: scheme_chars_def ascii_upper_def ascii_lower_def ascii_digits_def)
    then have "CHR ''?'' \<notin> set (scheme r)" "CHR ''#'' \<notin> set (scheme r)"
      using urlparse_fields(1)[OF Inr] by blast+
    moreover have "CHR ''?'' \<notin> set (netloc r)" "CHR ''#'' \<notin> set (netloc r)"
      using urlparse_fields(2)[OF Inr] by (auto simp: is_delim_def)
    ultimately have "CHR ''?'' \<notin> set (scheme r @ ''://'' @ netloc r @ path r)"
      "CHR ''#'' \<notin> set (scheme r @ ''://'' @ netloc r @ path r)"
      using urlparse_fields(3,4)[OF Inr] by simp_all
    then show ?thesis
      unfolding N Inr by (simp add: notin_rstrip_where)
  qed
qed

lemma normalize_url_no_trailing_slash:
  "normalize_url nv u = [] \<or> last (normalize_url nv u) \<noteq> CHR ''/''"
proof -
  obtain s where "normalize_url nv u = rstrip_where is_slash s"
    using normalize_url_shape by blast
  then show ?thesis
    using rstrip_where_last[of is_slash s] by (auto simp: is_slash_def)
qed

lemma split_scheme_http:
  "S = ''http'' \<or> S = ''https'' \<Longrightarrow> split_scheme (S @ CHR '':'' # w) = (S, w)"
  by (auto simp: split_scheme_def before_char_def after_char_def is_ascii_alpha_def
      scheme_chars_def ascii_lower_def ascii_upper_def ascii_digits_def lower_def lower_char_def)

lemma urlsplit_http:
  assumes "S = ''http'' \<or> S = ''https''"
  shows "urlsplit nv (S @ ''://'' @ rest) =
     (let f = filter (\<lambda>c. \<not> unsafe_url_byte c) rest;
          n = takeWhile (\<lambda>c. \<not> is_delim c) f;
          p0 = dropWhile (\<lambda>c. \<not> is_delim c) f
      in if netloc_raises nv n then Inl ''ValueError''
         else Inr \<lparr>scheme = S, netloc = n,
                   path = before_char CHR ''?'' (before_char CHR ''#'' p0),
                   query = after_char CHR ''?'' (before_char CHR ''#'' p0),
                   fragment = after_char CHR ''#'' p0\<rparr>)"
proof -
  let ?f = "filter (\<lambda>c. \<not> unsafe_url_byte c) rest"
  have 1: "lstrip_where c0_control_or_space (S @ ''://'' @ rest) = S @ ''://'' @ rest"
    using assms by (auto simp: lstrip_where_def c0_control_or_space_def)
  have 2: "filter (\<lambda>c. \<not> unsafe_url_byte c) (S @ ''://'' @ rest)
             = S @ CHR '':'' # CHR ''/'' # CHR ''/'' # ?f"
    using assms by (auto simp: unsafe_url_byte_def)
  have 3: "split_scheme (S @ CHR '':'' # CHR ''/'' # CHR ''/'' # ?f) = (S, CHR ''/'' # CHR ''/'' # ?f)"
    using assms by (rule split_scheme_http)
  have 4: "split_netloc (CHR ''/'' # CHR ''/'' # ?f)
             = (takeWhile (\<lambda>c. \<not> is_delim c) ?f, dropWhile (\<lambda>c. \<not> is_delim c) ?f)"
    by (simp add: split_netloc_def)
  show ?thesis
    unfolding urlsplit_unfold 1 2 Let_def unfolding 3 snd_conv fst_conv 4 by simp
qed

lemma before_char_append: "c \<notin> set a \<Longrightarrow> before_char c (a @ b) = a @ before_char c b"
  by (induction a) (auto simp: before_char_def)

lemma uses_params_http: "S = ''http'' \<or> S = ''https'' \<Longrightarrow> S \<in> set uses_params"
  by (auto simp: uses_params_def)

lemma normalize_url_http:
  assumes S: "S = ''http'' \<or> S = ''https''" and v: "resolved u = S @ ''://'' @ rest" and u: "u \<noteq> []"
  shows "normalize_url nv u =
     (let f = filter (\<lambda>c. \<not> unsafe_url_byte c) rest;
          n = takeWhile (\<lambda>c. \<not> is_delim c) f;
          p = before_char CHR ''?'' (before_char CHR ''#'' (dropWhile (\<lambda>c. \<not> is_delim c) f))
      in if netloc_raises nv n
         then (S @ '':'') @ rstrip_where is_slash (''//'' @ before_char CHR ''#'' (before_char CHR ''?'' rest))
         else (S @ '':'') @ rstrip_where is_slash
                 (''//'' @ n @ (if CHR '';'' \<in> set p then splitparams p else p)))"
proof -
  let ?f = "filter (\<lambda>c. \<not> unsafe_url_byte c) rest"
  let ?n = "takeWhile (\<lambda>c. \<not> is_delim c) ?f"
  let ?p = "before_char CHR ''?'' (before_char CHR ''#'' (dropWhile (\<lambda>c. \<not> is_delim c) ?f))"
  have keep: "rstrip_where is_slash ((S @ '':'') @ b) = (S @ '':'') @ rstrip_where is_slash b" for b
    by (rule rstrip_where_keep) (simp_all add: is_slash_def)
  show ?thesis
  proof (cases "netloc_raises nv ?n")
    case True
    then have "urlparse nv (resolved u) = Inl ''ValueError''"
      unfolding v urlparse_def urlsplit_http[OF S] Let_def by simp
    moreover have "before_char CHR ''#'' (before_char CHR ''?'' (S @ ''://'' @ rest))
          = (S @ '':'') @ (''//'' @ before_char CHR ''#'' (before_char CHR ''?'' rest))"
      using S by (auto simp: before_char_def)
    ultimately show ?thesis
      using True unfolding normalize_url_unfold[OF u] v Let_def by (simp only: sum.case keep if_True)
  next
    case False
    have "urlparse nv (resolved u) =
            Inr \<lparr>scheme = S, netloc = ?n,
                 path = (if CHR '';'' \<in> set ?p then splitparams ?p else ?p),
                 query = after_char CHR ''?''
                           (before_char CHR ''#'' (dropWhile (\<lambda>c. \<not> is_delim c) ?f)),
                 fragment = after_char CHR ''#'' (dropWhile (\<lambda>c. \<not> is_delim c) ?f)\<rparr>"
      using False uses_params_http[OF S]
      unfolding v urlparse_def urlsplit_http[OF S] Let_def by simp
    then have "normalize_url nv u = rstrip_where is_slash
        ((S @ '':'') @ (''//'' @ ?n @ (if CHR '';'' \<in> set ?p then splitparams ?p else ?p)))"
      unfolding normalize_url_unfold[OF u] by simp
    then show ?thesis
      using False unfolding keep Let_def by (simp only: if_False)
  qed
qed


lemma resolved_root_relative:
  "\<not> prefix ''/'' r \<Longrightarrow>
     resolved (CHR ''/'' # r) = ''https'' @ ''://'' @ (''www.rottentomatoes.com'' @ CHR ''/'' # r)"
  by (simp add: resolved_def site_origin_def)

lemma host_not_raising: "\<not> netloc_raises nv ''www.rottentomatoes.com''"
  by (simp add: netloc_raises_def is_ascii_def)

lemma normalize_url_root_relative:
  assumes "\<not> prefix ''/'' r"
  shows "normalize_url nv (CHR ''/'' # r) =
           site_origin @ rstrip_where is_slash
             (let p = before_char CHR ''?'' (before_char CHR ''#''
                        (CHR ''/'' # filter (\<lambda>c. \<not> unsafe_url_byte c) r))
              in if CHR '';'' \<in> set p then splitparams p else p)"
proof -
  let ?g = "filter (\<lambda>c. \<not> unsafe_url_byte c) r"
  have f: "filter (\<lambda>c. \<not> unsafe_url_byte c) (''www.rottentomatoes.com'' @ CHR ''/'' # r)
             = ''www.rottentomatoes.com'' @ CHR ''/'' # ?g"
    by (simp add: unsafe_url_byte_def)
  have n: "takeWhile (\<lambda>c. \<not> is_delim c) (''www.rottentomatoes.com'' @ CHR ''/'' # ?g)
             = ''www.rottentomatoes.com''"
    and d: "dropWhile (\<lambda>c. \<not> is_delim c) (''www.rottentomatoes.com'' @ CHR ''/'' # ?g)
             = CHR ''/'' # ?g"
    by (simp_all add: is_delim_def)
  have keep: "rstrip_where is_slash (''//www.rottentomatoes.com'' @ b)
                = ''//www.rottentomatoes.com'' @ rstrip_where is_slash b" for b
    by (rule rstrip_where_keep) (simp_all add: is_slash_def)
  have "normalize_url nv (CHR ''/'' # r) =
          (''https'' @ '':'') @ rstrip_where is_slash
             (''//www.rottentomatoes.com'' @
                (let p = before_char CHR ''?'' (before_char CHR ''#'' (CHR ''/'' # ?g))
                 in if CHR '';'' \<in> set p then splitparams p else p))"
    using normalize_url_http[OF _ resolved_root_relative[OF assms], of nv] host_not_raising[of nv]
    unfolding f n d Let_def by simp
  then show ?thesis
    unfolding keep by (simp add: site_origin_def)
qed

lemma normalize_url_keeps_scheme:
  assumes S: "S = ''http'' \<or> S = ''https''" and u: "prefix (S @ ''://'') u"
  shows "prefix (S @ '':'') (normalize_url nv u)"
proof -
  from u obtain rest where rest: "u = S @ ''://'' @ rest"
    by (auto simp: prefix_def)
  have "resolved u = S @ ''://'' @ rest"
    using S rest by (auto simp: resolved_def)
  moreover have "u \<noteq> []" using S rest by auto
  ultimately show ?thesis
    using normalize_url_http[OF S, of u rest nv] by (auto simp: Let_def)
qed

lemma takeWhile_filter_commute:
  "(\<And>c. \<not> Q c \<Longrightarrow> K c) \<Longrightarrow> takeWhile Q (filter K y) = filter K (takeWhile Q y)"
  by (induction y) auto

lemma rstrip_where_split: "\<exists>s. y = rstrip_where P y @ s \<and> (\<forall>c \<in> set s. P c)"
proof -
  have "rev y = takeWhile P (rev y) @ dropWhile P (rev y)" by simp
  then have "y = rev (dropWhile P (rev y)) @ rev (takeWhile P (rev y))"
    by (metis rev_append rev_rev_ident)
  moreover have "\<forall>c \<in> set (rev (takeWhile P (rev y))). P c"
    by (auto dest: set_takeWhileD)
  ultimately show ?thesis unfolding rstrip_where_def by blast
qed

lemma takeWhile_rstrip_where:
  assumes "\<And>c. P c \<Longrightarrow> \<not> Q c"
  shows "takeWhile Q (rstrip_where P y) = takeWhile Q y"
proof -
  obtain s where s: "y = rstrip_where P y @ s" "\<forall>c \<in> set s. P c"
    using rstrip_where_split by blast
  let ?z = "rstrip_where P y"
  show ?thesis
  proof (cases "\<forall>c \<in> set ?z. Q c")
    case True
    have "takeWhile Q s = []" using s(2) assms by (cases s) auto
    then have "takeWhile Q (?z @ s) = ?z" using True by (simp add: takeWhile_append2)
    moreover have "takeWhile Q ?z = ?z" using True by simp
    ultimately show ?thesis using s(1) by metis
  next
    case False
    then obtain c where "c \<in> set ?z" "\<not> Q c" by blast
    then have "takeWhile Q (?z @ s) = takeWhile Q ?z" by (rule takeWhile_append1)
    then show ?thesis using s(1) by metis
  qed
qed

lemma rstrip_where_idem: "rstrip_where P (rstrip_where P y) = rstrip_where P y"
proof (cases "rstrip_where P y = []")
  case True
  then show ?thesis by (simp add: rstrip_where_def)
next
  case False
  then have "\<not> P (last (rstrip_where P y))" by (rule rstrip_where_last)
  then show ?thesis
    using rstrip_where_keep[OF False, of P "[]"] by (simp add: rstrip_where_def)
qed

lemma rstrip_where_append_keep:
  assumes "\<exists>c \<in> set b. \<not> P c"
  shows "rstrip_where P (a @ b) = a @ rstrip_where P b"
proof -
  from assms obtain c where "c \<in> set (rev b)" "\<not> P c" by auto
  then have "dropWhile P (rev b @ rev a) = dropWhile P (rev b) @ rev a"
    by (rule dropWhile_append1)
  then show ?thesis by (simp add: rstrip_where_def)
qed

lemma rstrip_where_all: "\<forall>c \<in> set b. P c \<Longrightarrow> rstrip_where P b = []"
  by (simp add: rstrip_where_def)

lemma rstrip_where_nonempty: "\<exists>c \<in> set b. \<not> P c \<Longrightarrow> \<exists>c \<in> set (rstrip_where P b). \<not> P c"
  by (metis rstrip_where_split Un_iff set_append)

lemma before_before: "before_char a (before_char b s) = takeWhile (\<lambda>c. c \<noteq> a \<and> c \<noteq> b) s"
  by (induction s) (auto simp: before_char_def)

lemma before_char_id: "c \<notin> set s \<Longrightarrow> before_char c s = s"
  by (auto simp: before_char_def)


lemma takeWhile_takeWhile_imp:
  "(\<And>c. Q c \<Longrightarrow> R c) \<Longrightarrow> takeWhile Q (takeWhile R s) = takeWhile Q s"
  by (induction s) auto

lemma resolved_http:
  "S = ''http'' \<or> S = ''https'' \<Longrightarrow> resolved (S @ ''://'' @ X) = S @ ''://'' @ X"
  by (auto simp: resolved_def)

text \<open>A URL with scheme http or https that has the shape of an output is left as it is.\<close>

lemma normalize_url_fixed:
  assumes S: "S = ''http'' \<or> S = ''https''"
    and ne: "X \<noteq> []" and last: "\<not> is_slash (last X)"
    and nq: "CHR ''?'' \<notin> set X" "CHR ''#'' \<notin> set X"
    and alt: "netloc_raises nv (takeWhile (\<lambda>c. \<not> is_delim c) (filter (\<lambda>c. \<not> unsafe_url_byte c) X))
              \<or> ((\<forall>c \<in> set X. \<not> unsafe_url_byte c) \<and> CHR '';'' \<notin> set X)"
  shows "normalize_url nv (S @ ''://'' @ X) = S @ ''://'' @ X"
proof -
  let ?f = "filter (\<lambda>c. \<not> unsafe_url_byte c) X"
  let ?n = "takeWhile (\<lambda>c. \<not> is_delim c) ?f"
  let ?d = "dropWhile (\<lambda>c. \<not> is_delim c) ?f"
  have u: "S @ ''://'' @ X \<noteq> []" by simp
  have keep: "rstrip_where is_slash (CHR ''/'' # CHR ''/'' # X) = CHR ''/'' # CHR ''/'' # X"
    using rstrip_where_keep[of "CHR ''/'' # CHR ''/'' # X" is_slash "[]"] ne last
    by (simp add: rstrip_where_def)
  note N = normalize_url_http[OF S resolved_http[OF S] u, of nv]
  show ?thesis
  proof (cases "netloc_raises nv ?n")
    case True
    have "before_char CHR ''#'' (before_char CHR ''?'' X) = X"
      using nq by (simp add: before_char_id)
    then show ?thesis
      using True unfolding N Let_def by (simp add: keep)
  next
    case False
    with alt have safe: "\<forall>c \<in> set X. \<not> unsafe_url_byte c" and semi: "CHR '';'' \<notin> set X"
      by blast+
    from safe have f: "?f = X" by simp
    have sub: "set (dropWhile (\<lambda>c. \<not> is_delim c) X) \<subseteq> set X"
      by (auto dest: set_dropWhileD)
    then have "CHR ''?'' \<notin> set (dropWhile (\<lambda>c. \<not> is_delim c) X)"
      and "CHR ''#'' \<notin> set (dropWhile (\<lambda>c. \<not> is_delim c) X)"
      and semi': "CHR '';'' \<notin> set (dropWhile (\<lambda>c. \<not> is_delim c) X)"
      using nq semi by blast+
    then have p: "before_char CHR ''?'' (before_char CHR ''#'' (dropWhile (\<lambda>c. \<not> is_delim c) X))
                    = dropWhile (\<lambda>c. \<not> is_delim c) X"
      by (simp add: before_char_id)
    show ?thesis
      using False semi' unfolding N Let_def f p by (simp add: keep)
  qed
qed

lemma normalize_url_scheme_only:
  assumes S: "S = ''http'' \<or> S = ''https''"
  shows "normalize_url nv (S @ '':'') = S @ '':''"
proof -
  have r: "resolved (S @ '':'') = S @ '':''"
    using S by (auto simp: resolved_def)
  have "urlsplit nv (S @ '':'') = Inr \<lparr>scheme = S, netloc = [], path = [], query = [], fragment = []\<rparr>"
  proof -
    have 1: "lstrip_where c0_control_or_space (S @ '':'') = S @ '':''"
      using S by (auto simp: lstrip_where_def c0_control_or_space_def)
    have 2: "filter (\<lambda>c. \<not> unsafe_url_byte c) (S @ '':'') = S @ CHR '':'' # []"
      using S by (auto simp: unsafe_url_byte_def)
    have 3: "split_scheme (S @ CHR '':'' # []) = (S, [])"
      using S by (rule split_scheme_http)
    show ?thesis
      unfolding urlsplit_unfold 1 2 Let_def unfolding 3 snd_conv fst_conv
      by (simp add: split_netloc_def netloc_raises_def before_char_def after_char_def)
  qed
  then have "urlparse nv (resolved (S @ '':''))
               = Inr \<lparr>scheme = S, netloc = [], path = [], query = [], fragment = []\<rparr>"
    unfolding r urlparse_def by simp
  moreover have "rstrip_where is_slash (S @ ''://'') = S @ '':''"
    using S by (auto simp: rstrip_where_def is_slash_def)
  ultimately show ?thesis
    using S by (subst normalize_url_unfold) auto
qed

lemma resolved_shape:
  assumes "prefix ''/'' u \<or> prefix ''http://'' u \<or> prefix ''https://'' u"
  shows "\<exists>S rest. (S = ''http'' \<or> S = ''https'') \<and> resolved u = S @ ''://'' @ rest \<and>
           (CHR '';'' \<notin> set u \<longrightarrow> CHR '';'' \<notin> set rest)"
proof -
  consider (http) "prefix ''http://'' u" | (https) "prefix ''https://'' u"
    | (proto) "\<not> prefix ''http://'' u" "\<not> prefix ''https://'' u" "prefix ''//'' u"
    | (root) "\<not> prefix ''http://'' u" "\<not> prefix ''https://'' u" "\<not> prefix ''//'' u" "prefix ''/'' u"
    using assms by blast
  then show ?thesis
  proof cases
    case http
    then obtain rest where "u = ''http'' @ ''://'' @ rest" by (auto simp: prefix_def)
    then show ?thesis using http by (intro exI[of _ "''http''"] exI[of _ rest]) (auto simp: resolved_def)
  next
    case https
    then obtain rest where "u = ''https'' @ ''://'' @ rest" by (auto simp: prefix_def)
    then show ?thesis using https by (intro exI[of _ "''https''"] exI[of _ rest]) (auto simp: resolved_def)
  next
    case proto
    then obtain rest where "u = ''//'' @ rest" by (auto simp: prefix_def)
    then show ?thesis using proto by (intro exI[of _ "''https''"] exI[of _ rest]) (auto simp: resolved_def)
  next
    case root
    then show ?thesis
      by (intro exI[of _ "''https''"] exI[of _ "''www.rottentomatoes.com'' @ u"])
         (auto simp: resolved_def site_origin_def)
  qed
qed

text \<open>
  Claim C4, amended. \<^verbatim>\<open>normalize_url\<close> is idempotent on every URL that begins with
  \<^verbatim>\<open>/\<close>, \<^verbatim>\<open>http://\<close> or \<^verbatim>\<open>https://\<close> and contains no semicolon: normalizing
  its normalization returns it unchanged.
\<close>

theorem normalize_url_idempotent_resolved:
  assumes dom: "prefix ''/'' u \<or> prefix ''http://'' u \<or> prefix ''https://'' u"
    and semi: "CHR '';'' \<notin> set u"
  shows "normalize_url nv (normalize_url nv u) = normalize_url nv u"
proof -
  from resolved_shape[OF dom] semi obtain S rest
    where S: "S = ''http'' \<or> S = ''https''" and v: "resolved u = S @ ''://'' @ rest"
      and semi': "CHR '';'' \<notin> set rest"
    by blast
  have u: "u \<noteq> []" using dom by auto
  let ?safe = "\<lambda>c. \<not> unsafe_url_byte c"
  let ?nd = "\<lambda>c. \<not> is_delim c"
  let ?f = "filter ?safe rest"
  let ?n = "takeWhile ?nd ?f"
  let ?p = "before_char CHR ''?'' (before_char CHR ''#'' (dropWhile ?nd ?f))"
  let ?x0 = "before_char CHR ''#'' (before_char CHR ''?'' rest)"
  define X where "X = (if netloc_raises nv ?n then ?x0 else ?n @ ?p)"
  have subp: "set ?p \<subseteq> set ?f"
    using set_before_char[of "CHR ''?''"] set_before_char[of "CHR ''#''"]
      set_dropWhileD[of _ ?nd ?f] by blast
  have semi_p: "CHR '';'' \<notin> set ?p" using subp semi' by auto
  have o: "normalize_url nv u = (S @ '':'') @ rstrip_where is_slash (''//'' @ X)"
    unfolding normalize_url_http[OF S v u] Let_def X_def using semi_p by simp
  show ?thesis
  proof (cases "\<forall>c \<in> set X. is_slash c")
    case True
    then have "\<forall>c \<in> set (''//'' @ X). is_slash c" by (simp add: is_slash_def)
    then have "rstrip_where is_slash (''//'' @ X) = []" by (rule rstrip_where_all)
    then show ?thesis
      unfolding o using normalize_url_scheme_only[OF S, of nv] by simp
  next
    case False
    define X' where "X' = rstrip_where is_slash X"
    from False have ex: "\<exists>c \<in> set X. \<not> is_slash c" by blast
    have o': "normalize_url nv u = S @ ''://'' @ X'"
      unfolding o X'_def rstrip_where_append_keep[OF ex] by simp
    have ne: "X' \<noteq> []"
      using rstrip_where_nonempty[OF ex] unfolding X'_def by auto
    have last: "\<not> is_slash (last X')"
      using ne unfolding X'_def by (rule rstrip_where_last)
    have sub: "set X' \<subseteq> set X" unfolding X'_def by (rule set_rstrip_where)
    have x0: "?x0 = takeWhile (\<lambda>c. c \<noteq> CHR ''#'' \<and> c \<noteq> CHR ''?'') rest"
      by (rule before_before)
    have nq: "CHR ''?'' \<notin> set X \<and> CHR ''#'' \<notin> set X"
    proof (cases "netloc_raises nv ?n")
      case True
      then show ?thesis unfolding X_def x0 by (auto dest: set_takeWhileD)
    next
      case False
      have "CHR ''?'' \<notin> set ?n \<and> CHR ''#'' \<notin> set ?n"
        by (auto dest!: set_takeWhileD simp: is_delim_def)
      moreover have "CHR ''?'' \<notin> set ?p" by (rule before_char_notin)
      moreover have "CHR ''#'' \<notin> set ?p"
        using before_char_notin[of "CHR ''#''"] set_before_char[of "CHR ''?''"] by blast
      ultimately show ?thesis using False unfolding X_def by simp
    qed
    have alt: "netloc_raises nv (takeWhile ?nd (filter ?safe X'))
              \<or> ((\<forall>c \<in> set X'. \<not> unsafe_url_byte c) \<and> CHR '';'' \<notin> set X')"
    proof (cases "netloc_raises nv ?n")
      case True
      then have X: "X = ?x0" by (simp add: X_def)
      have "takeWhile ?nd (filter ?safe X') = filter ?safe (takeWhile ?nd X')"
        by (rule takeWhile_filter_commute) (auto simp: is_delim_def unsafe_url_byte_def)
      also have "takeWhile ?nd X' = takeWhile ?nd X"
        unfolding X'_def by (rule takeWhile_rstrip_where) (simp add: is_slash_def is_delim_def)
      also have "takeWhile ?nd X = takeWhile ?nd rest"
        unfolding X x0 by (rule takeWhile_takeWhile_imp) (auto simp: is_delim_def)
      also have "filter ?safe (takeWhile ?nd rest) = ?n"
        by (rule takeWhile_filter_commute[symmetric]) (auto simp: is_delim_def unsafe_url_byte_def)
      finally show ?thesis using True by simp
    next
      case False
      then have X: "X = ?n @ ?p" by (simp add: X_def)
      have "set ?n \<subseteq> set ?f" by (auto dest: set_takeWhileD)
      then have "set X \<subseteq> set ?f" unfolding X using subp by simp
      then have inf: "set X' \<subseteq> set ?f" using sub by (rule subset_trans[rotated])
      have "\<forall>c \<in> set X'. \<not> unsafe_url_byte c"
      proof
        fix c assume "c \<in> set X'"
        then have "c \<in> set ?f" using inf by (rule subsetD[rotated])
        then show "\<not> unsafe_url_byte c" by simp
      qed
      moreover have "CHR '';'' \<notin> set X'"
      proof
        assume "CHR '';'' \<in> set X'"
        then have "CHR '';'' \<in> set ?f" using inf by (rule subsetD[rotated])
        then show False using semi' by simp
      qed
      ultimately show ?thesis by (rule disjI2[OF conjI])
    qed
    have nq': "CHR ''?'' \<notin> set X'" "CHR ''#'' \<notin> set X'"
      using nq sub by (meson subsetD)+
    show ?thesis
      unfolding o' by (rule normalize_url_fixed[OF S ne last nq' alt])
  qed
qed

lemmas url_defs = normalize_url_def resolved_def urlparse_def urlsplit_unfold split_scheme_def
  split_netloc_def lstrip_where_def rstrip_where_def before_char_def after_char_def
  c0_control_or_space_def unsafe_url_byte_def netloc_raises_def uses_params_def is_slash_def
  is_delim_def is_ascii_def is_ascii_alpha_def scheme_chars_def ascii_lower_def ascii_upper_def
  ascii_digits_def lower_def lower_char_def splitparams_def last_segment_def site_origin_def

lemma normalize_url_examples:
  "normalize_url nv ''/m/foo/?x=1#y'' = ''https://www.rottentomatoes.com/m/foo''"
  "normalize_url nv ''https://site/m/foo?x=1#y'' = ''https://site/m/foo''"
  "normalize_url nv ''//cdn.site/m/foo/'' = ''https://cdn.site/m/foo''"
  by (simp_all add: url_defs)

text \<open>
  The root-relative \<^verbatim>\<open>/m/foo/?x=1#y\<close> normalizes to a URL that normalizes to itself.
\<close>

theorem normalize_url_idempotent_resolved_witness:
  "prefix ''/'' ''/m/foo/?x=1#y'' \<and> CHR '';'' \<notin> set ''/m/foo/?x=1#y'' \<and>
   normalize_url (\<lambda>n. True) ''/m/foo/?x=1#y'' = ''https://www.rottentomatoes.com/m/foo'' \<and>
   normalize_url (\<lambda>n. True) ''https://www.rottentomatoes.com/m/foo''
     = ''https://www.rottentomatoes.com/m/foo''"
proof -
  have dom: "prefix ''/'' ''/m/foo/?x=1#y'' \<or> prefix ''http://'' ''/m/foo/?x=1#y''
             \<or> prefix ''https://'' ''/m/foo/?x=1#y''"
    and semi: "CHR '';'' \<notin> set ''/m/foo/?x=1#y''"
    by simp_all
  have "normalize_url (\<lambda>n. True) (normalize_url (\<lambda>n. True) ''/m/foo/?x=1#y'')
          = normalize_url (\<lambda>n. True) ''/m/foo/?x=1#y''"
    using dom semi by (rule normalize_url_idempotent_resolved)
  then show ?thesis
    unfolding normalize_url_examples(1) by simp
qed

text \<open>
  Claim C4 as stated fails: a relative path without a leading slash gets the separator
  \<^verbatim>\<open>://\<close> in front at every application, and a semicolon that a trailing slash
  protected starts the parameters of the last segment at the second application.
\<close>

theorem normalize_url_not_idempotent:
  "\<forall>nv. normalize_url nv ''foo'' = ''://foo'' \<and>
        normalize_url nv (normalize_url nv ''foo'') = ''://://foo'' \<and>
        normalize_url nv (normalize_url nv ''foo'') \<noteq> normalize_url nv ''foo'' \<and>
        normalize_url nv ''https://site/m/foo;a/'' = ''https://site/m/foo;a'' \<and>
        normalize_url nv (normalize_url nv ''https://site/m/foo;a/'') = ''https://site/m/foo''"
proof
  fix nv
  have 1: "normalize_url nv ''foo'' = ''://foo''"
    and 2: "normalize_url nv ''://foo'' = ''://://foo''"
    and 3: "normalize_url nv ''https://site/m/foo;a/'' = ''https://site/m/foo;a''"
    and 4: "normalize_url nv ''https://site/m/foo;a'' = ''https://site/m/foo''"
    by (simp_all add: url_defs)
  show "normalize_url nv ''foo'' = ''://foo'' \<and>
        normalize_url nv (normalize_url nv ''foo'') = ''://://foo'' \<and>
        normalize_url nv (normalize_url nv ''foo'') \<noteq> normalize_url nv ''foo'' \<and>
        normalize_url nv ''https://site/m/foo;a/'' = ''https://site/m/foo;a'' \<and>
        normalize_url nv (normalize_url nv ''https://site/m/foo;a/'') = ''https://site/m/foo''"
    unfolding 1 2 3 4 by simp
qed

lemma normalize_url_protocol_relative:
  assumes "prefix ''//'' u"
  shows "prefix ''https:'' (normalize_url nv u)"
proof -
  from assms obtain rest where rest: "u = ''//'' @ rest"
    by (auto simp: prefix_def)
  then have "resolved u = ''https'' @ ''://'' @ rest"
    by (simp add: resolved_def)
  moreover have "u \<noteq> []" using rest by simp
  ultimately show ?thesis
    using normalize_url_http[of "''https''" u rest nv] by (auto simp: Let_def)
qed

lemma normalize_url_resolves_root:
  assumes "prefix ''/'' u" and "\<not> prefix ''//'' u"
  shows "\<exists>p. normalize_url nv u = site_origin @ p
             \<and> prefix p (filter (\<lambda>c. \<not> unsafe_url_byte c) u)"
proof -
  from assms obtain r where u: "u = CHR ''/'' # r" and r: "\<not> prefix ''/'' r"
    by (cases u) auto
  let ?g = "filter (\<lambda>c. \<not> unsafe_url_byte c) r"
  let ?q = "before_char CHR ''?'' (before_char CHR ''#'' (CHR ''/'' # ?g))"
  let ?p = "rstrip_where is_slash (if CHR '';'' \<in> set ?q then splitparams ?q else ?q)"
  have "prefix ?q (before_char CHR ''#'' (CHR ''/'' # ?g))" by (rule prefix_before_char)
  also have "prefix \<dots> (CHR ''/'' # ?g)" by (rule prefix_before_char)
  finally have q: "prefix ?q (CHR ''/'' # ?g)" .
  have "prefix (if CHR '';'' \<in> set ?q then splitparams ?q else ?q) ?q"
    by (simp add: prefix_splitparams)
  then have "prefix ?p ?q"
    using prefix_rstrip_where prefix_order.trans by blast
  with q have "prefix ?p (CHR ''/'' # ?g)"
    using prefix_order.trans by blast
  moreover have "filter (\<lambda>c. \<not> unsafe_url_byte c) u = CHR ''/'' # ?g"
    unfolding u by (simp add: unsafe_url_byte_def)
  moreover have "normalize_url nv u = site_origin @ ?p"
    unfolding u normalize_url_root_relative[OF r] Let_def by simp
  ultimately show ?thesis by auto
qed

lemma split_scheme_no_colon: "CHR '':'' \<notin> set v \<Longrightarrow> split_scheme v = ([], v)"
  unfolding split_scheme_def Let_def by simp

lemma urlparse_scheme:
  assumes "urlparse nv u = Inr r"
  shows "scheme r = fst (split_scheme (filter (\<lambda>c. \<not> unsafe_url_byte c)
                                        (lstrip_where c0_control_or_space u)))"
proof -
  from assms obtain r0 where r0: "urlsplit nv u = Inr r0"
    and r: "r = r0 \<or> r = r0\<lparr>path := splitparams (path r0)\<rparr>"
    by (auto simp: urlparse_def split: sum.splits if_splits)
  from r0 have "scheme r0 = fst (split_scheme (filter (\<lambda>c. \<not> unsafe_url_byte c)
                                                 (lstrip_where c0_control_or_space u)))"
    unfolding urlsplit_unfold Let_def by (auto split: if_splits)
  with r show ?thesis by auto
qed

text \<open>
  An href without a colon and without a leading slash is passed to \<^verbatim>\<open>urlparse\<close> as it
  is: no scheme is found, and the result begins with a colon or is an initial part of the
  href.
\<close>

lemma normalize_url_relative_kept:
  assumes slash: "\<not> prefix ''/'' u" and colon: "CHR '':'' \<notin> set u"
  shows "\<not> prefix site_origin (normalize_url nv u)"
proof (cases "u = []")
  case True
  then show ?thesis by (simp add: normalize_url_def site_origin_def)
next
  case False
  have "\<not> prefix ''http://'' u" "\<not> prefix ''https://'' u"
    using colon by (auto simp: prefix_def)
  moreover have "\<not> prefix ''//'' u"
    using slash by (auto simp: prefix_def)
  ultimately have res: "resolved u = u"
    using slash by (simp add: resolved_def)
  note N = normalize_url_unfold[OF False, of nv, unfolded res]
  show ?thesis
  proof (cases "urlparse nv u")
    case (Inl e)
    have "set (normalize_url nv u) \<subseteq> set u"
      unfolding N Inl
      using set_rstrip_where[of is_slash "before_char CHR ''#'' (before_char CHR ''?'' u)"]
        set_before_char[of "CHR ''#''" "before_char CHR ''?'' u"]
        set_before_char[of "CHR ''?''" u]
      by simp
    then have "CHR '':'' \<notin> set (normalize_url nv u)" using colon by blast
    moreover have "CHR '':'' \<in> set site_origin" by (simp add: site_origin_def)
    ultimately show ?thesis
      using set_mono_prefix[of site_origin "normalize_url nv u"] by blast
  next
    case (Inr r)
    let ?u2 = "filter (\<lambda>c. \<not> unsafe_url_byte c) (lstrip_where c0_control_or_space u)"
    have "set ?u2 \<subseteq> set u"
      by (auto simp: lstrip_where_def dest: set_dropWhileD)
    then have "CHR '':'' \<notin> set ?u2" using colon by blast
    then have "split_scheme ?u2 = ([], ?u2)" by (rule split_scheme_no_colon)
    then have sch: "scheme r = []" using urlparse_scheme[OF Inr] by simp
    have "rstrip_where is_slash ('':'' @ (''//'' @ netloc r @ path r))
            = '':'' @ rstrip_where is_slash (''//'' @ netloc r @ path r)"
      by (rule rstrip_where_keep) (simp_all add: is_slash_def)
    then have "normalize_url nv u = CHR '':'' # rstrip_where is_slash (''//'' @ netloc r @ path r)"
      unfolding N Inr by (simp add: sch)
    then show ?thesis by (simp add: site_origin_def)
  qed
qed

text \<open>
  Claim C5, amended. For every href the result of \<^verbatim>\<open>normalize_url\<close> contains neither
  a question mark nor a hash sign and does not end in a slash. An href that begins with
  one slash is resolved against the site origin: the result is the origin followed by an
  initial part of what is left of the href when every tab, carriage return and line feed
  has been removed from it. An href that begins with two slashes gets the scheme https,
  and one that begins with \<^verbatim>\<open>http://\<close> or \<^verbatim>\<open>https://\<close> keeps its scheme. An href that
  does not begin with a slash and contains no colon is not resolved against the origin.
  In particular \<^verbatim>\<open>https://site/m/foo?x=1#y\<close> normalizes to \<^verbatim>\<open>https://site/m/foo\<close>.
\<close>

theorem normalize_url_strips:
  "CHR ''?'' \<notin> set (normalize_url nv u) \<and> CHR ''#'' \<notin> set (normalize_url nv u) \<and>
   \<not> suffix ''/'' (normalize_url nv u) \<and>
   (prefix ''/'' u \<and> \<not> prefix ''//'' u \<longrightarrow>
      (\<exists>p. normalize_url nv u = site_origin @ p
           \<and> prefix p (filter (\<lambda>c. \<not> unsafe_url_byte c) u))) \<and>
   (prefix ''//'' u \<longrightarrow> prefix ''https:'' (normalize_url nv u)) \<and>
   (prefix ''http://'' u \<longrightarrow> prefix ''http:'' (normalize_url nv u)) \<and>
   (prefix ''https://'' u \<longrightarrow> prefix ''https:'' (normalize_url nv u)) \<and>
   (\<not> prefix ''/'' u \<and> CHR '':'' \<notin> set u
      \<longrightarrow> \<not> prefix site_origin (normalize_url nv u)) \<and>
   normalize_url nv ''https://site/m/foo?x=1#y'' = ''https://site/m/foo''"
proof -
  have "\<not> suffix ''/'' (normalize_url nv u)"
    using normalize_url_no_trailing_slash[of nv u] by (auto simp: suffix_def)
  moreover have "prefix ''http://'' u \<longrightarrow> prefix ''http:'' (normalize_url nv u)"
    using normalize_url_keeps_scheme[of "''http''" u nv] by simp
  moreover have "prefix ''https://'' u \<longrightarrow> prefix ''https:'' (normalize_url nv u)"
    using normalize_url_keeps_scheme[of "''https''" u nv] by simp
  moreover have "\<not> prefix ''/'' u \<and> CHR '':'' \<notin> set u
      \<longrightarrow> \<not> prefix site_origin (normalize_url nv u)"
    using normalize_url_relative_kept[of u nv] by simp
  ultimately show ?thesis
    using normalize_url_no_query_fragment[of nv u] normalize_url_resolves_root[of u nv]
      normalize_url_protocol_relative[of u nv] normalize_url_examples(2)[of nv]
    by blast
qed

lemma normalize_url_more_examples:
  "normalize_url nv (CHR ''/'' # CHR ''a'' # CHR 0x09 # ''b/'') = ''https://www.rottentomatoes.com/ab''"
  "normalize_url nv ''../a/b/'' = ''://../a/b''"
  by (simp_all add: url_defs)

text \<open>
  A root-relative href with a query, a fragment and a trailing slash; the absolute URL
  of the claim; a root-relative href with a tab in it; a relative path that climbs.
\<close>

theorem normalize_url_strips_witness:
  "prefix ''/'' ''/m/foo/?x=1#y'' \<and> \<not> prefix ''//'' ''/m/foo/?x=1#y'' \<and>
   normalize_url (\<lambda>n. True) ''/m/foo/?x=1#y'' = ''https://www.rottentomatoes.com/m/foo'' \<and>
   (\<exists>p. normalize_url (\<lambda>n. True) ''/m/foo/?x=1#y'' = site_origin @ p
        \<and> prefix p ''/m/foo/?x=1#y'') \<and>
   prefix ''https://'' ''https://site/m/foo?x=1#y'' \<and>
   prefix ''https:'' (normalize_url (\<lambda>n. True) ''https://site/m/foo?x=1#y'') \<and>
   normalize_url (\<lambda>n. True) (CHR ''/'' # CHR ''a'' # CHR 0x09 # ''b/'')
     = ''https://www.rottentomatoes.com/ab'' \<and>
   (\<exists>p. normalize_url (\<lambda>n. True) (CHR ''/'' # CHR ''a'' # CHR 0x09 # ''b/'') = site_origin @ p
        \<and> prefix p ''/ab/'') \<and>
   \<not> prefix ''/'' ''../a/b/'' \<and> CHR '':'' \<notin> set ''../a/b/'' \<and>
   normalize_url (\<lambda>n. True) ''../a/b/'' = ''://../a/b'' \<and>
   \<not> prefix site_origin (normalize_url (\<lambda>n. True) ''../a/b/'')"
proof -
  have root: "prefix ''/'' ''/m/foo/?x=1#y'' \<and> \<not> prefix ''//'' ''/m/foo/?x=1#y''"
    and abs: "prefix ''https://'' ''https://site/m/foo?x=1#y''"
    and same: "filter (\<lambda>c. \<not> unsafe_url_byte c) ''/m/foo/?x=1#y'' = ''/m/foo/?x=1#y''"
    and tab: "prefix ''/'' (CHR ''/'' # CHR ''a'' # CHR 0x09 # ''b/'')
              \<and> \<not> prefix ''//'' (CHR ''/'' # CHR ''a'' # CHR 0x09 # ''b/'')"
    and less: "filter (\<lambda>c. \<not> unsafe_url_byte c) (CHR ''/'' # CHR ''a'' # CHR 0x09 # ''b/'')
                = ''/ab/''"
    and rel: "\<not> prefix ''/'' ''../a/b/'' \<and> CHR '':'' \<notin> set ''../a/b/''"
    by (simp_all add: unsafe_url_byte_def)
  note T = normalize_url_strips[where nv = "\<lambda>n. True"]
  have 1: "\<exists>p. normalize_url (\<lambda>n. True) ''/m/foo/?x=1#y'' = site_origin @ p
        \<and> prefix p ''/m/foo/?x=1#y''"
    using T[where u = "''/m/foo/?x=1#y''", THEN conjunct2, THEN conjunct2, THEN conjunct2,
        THEN conjunct1, rule_format, OF root]
    unfolding same .
  have 2: "prefix ''https:'' (normalize_url (\<lambda>n. True) ''https://site/m/foo?x=1#y'')"
    by (rule T[where u = "''https://site/m/foo?x=1#y''", THEN conjunct2, THEN conjunct2,
        THEN conjunct2, THEN conjunct2, THEN conjunct2, THEN conjunct2, THEN conjunct1,
        rule_format, OF abs])
  have 3: "\<exists>p. normalize_url (\<lambda>n. True) (CHR ''/'' # CHR ''a'' # CHR 0x09 # ''b/'')
               = site_origin @ p \<and> prefix p ''/ab/''"
    using T[where u = "CHR ''/'' # CHR ''a'' # CHR 0x09 # ''b/''", THEN conjunct2,
        THEN conjunct2, THEN conjunct2, THEN conjunct1, rule_format, OF tab]
    unfolding less .
  have 4: "\<not> prefix site_origin (normalize_url (\<lambda>n. True) ''../a/b/'')"
    by (rule T[where u = "''../a/b/''", THEN conjunct2, THEN conjunct2, THEN conjunct2,
        THEN conjunct2, THEN conjunct2, THEN conjunct2, THEN conjunct2, THEN conjunct1,
        rule_format, OF rel])
  show ?thesis
    by (intro conjI root[THEN conjunct1] root[THEN conjunct2] abs rel[THEN conjunct1]
          rel[THEN conjunct2] 1 2 3 4 normalize_url_examples(1)
          normalize_url_more_examples)
qed

text \<open>
  Claim C5 as stated fails on a relative path without a leading slash: it is not
  resolved against the site origin.
\<close>

theorem normalize_url_relative_unresolved:
  "\<forall>nv. normalize_url nv ''m/foo'' = ''://m/foo'' \<and>
        \<not> prefix site_origin (normalize_url nv ''m/foo'')"
proof
  fix nv
  have "normalize_url nv ''m/foo'' = ''://m/foo''"
    by (simp add: url_defs)
  then show "normalize_url nv ''m/foo'' = ''://m/foo'' \<and>
             \<not> prefix site_origin (normalize_url nv ''m/foo'')"
    by (simp add: site_origin_def)
qed

section \<open>The detail extractor: the duration\<close>

lemma tiers_keep_duration:
  "duration (tier1 pg md) = duration md"
  "duration (tier2 pg md) = duration md"
  "duration (tier3 pg md) = duration md"
  by (auto simp: tier1_def tier2_def tier3_def assign_js_scores_def Let_def
      split: option.splits sum.splits)

lemma target_field_runtime: "target_field (strip (lower ''Runtime'')) = Some ''runtime''"
  by code_simp

lemma strip_hd: "strip v \<noteq> [] \<Longrightarrow> \<not> is_space (hd (strip v))"
proof -
  assume ne: "strip v \<noteq> []"
  let ?w = "dropWhile is_space v"
  have w: "?w \<noteq> []"
    using ne by (cases "?w = []") (simp_all add: strip_def lstrip_where_def rstrip_where_def)
  then have h: "\<not> is_space (hd ?w)" by (simp add: hd_dropWhile)
  obtain s where s: "?w = rstrip_where is_space ?w @ s"
    using prefix_rstrip_where[of is_space ?w] by (auto simp: prefix_def)
  have "strip v = rstrip_where is_space ?w" by (simp add: strip_def lstrip_where_def)
  with ne s have "hd (strip v) = hd ?w" by (metis hd_append2)
  with h show ?thesis by simp
qed

lemma strip_no_spaces_nonempty:
  "strip v \<noteq> [] \<Longrightarrow> filter (\<lambda>c. c \<noteq> CHR '' '') (strip v) \<noteq> []"
proof -
  assume ne: "strip v \<noteq> []"
  then have "hd (strip v) \<noteq> CHR '' ''" using strip_hd[OF ne] by (auto simp: is_space_def)
  moreover have "hd (strip v) \<in> set (strip v)" using ne by simp
  ultimately show ?thesis by (auto simp: filter_empty_conv)
qed

lemma runtime_row_duration:
  assumes ok: "launch_error pg = None" "viewport_error pg = None" "goto_error pg = None"
      "browser_close_error pg = None"
    and row: "info_section pg = Inr [Inr \<lparr>label_count = Suc n, label_text = ''Runtime'',
                                          value_texts = v # vs\<rparr>]"
    and v: "strip v \<noteq> []"
    and f: "format_duration (filter (\<lambda>c. c \<noteq> CHR '' '') (strip v)) = Inr d'"
  shows "\<exists>md. scrape_movie_metadata_efficient pg u t = Inr (Metadata md) \<and> duration md = Some d'"
proof -
  let ?d = "filter (\<lambda>c. c \<noteq> CHR '' '') (strip v)"
  let ?m3 = "tier3 pg (tier2 pg (tier1 pg (initial_metadata u t)))"
  have v0: "v \<noteq> []"
    using v by (cases "v = []") (simp_all add: strip_def lstrip_where_def rstrip_where_def)
  have vals: "item_values (v # vs) = strip v # item_values vs"
    using v v0 by (simp add: item_values_def)
  have "extract_fields pg ?m3 = ?m3\<lparr>duration := Some ?d\<rparr>"
    unfolding extract_fields_def row
    by (simp add: process_item_def target_field_runtime vals set_field_def)
  then have dur: "duration (sanitize_scores (extract_fields pg ?m3)) = Some ?d"
    by (simp add: sanitize_scores_def)
  have "?d \<noteq> []" using v by (rule strip_no_spaces_nonempty)
  then have "postprocess_duration (sanitize_scores (extract_fields pg ?m3))
          = Inr ((sanitize_scores (extract_fields pg ?m3))\<lparr>duration := Some d'\<rparr>)"
    using dur f by (simp add: postprocess_duration_def)
  then show ?thesis
    using ok by (simp add: scrape_movie_metadata_efficient_def extraction_body_def Let_def)
qed

lemma format_duration_cases:
  "(CHR ''h'' \<in> set (lower d) \<or> CHR ''m'' \<in> set (lower d) \<longrightarrow> format_duration d = Inr d) \<and>
   (\<not> (CHR ''h'' \<in> set (lower d) \<or> CHR ''m'' \<in> set (lower d)) \<and> search_digits d = None
      \<longrightarrow> format_duration d = Inr d) \<and>
   (\<not> (CHR ''h'' \<in> set (lower d) \<or> CHR ''m'' \<in> set (lower d)) \<and> search_digits d = Some ds
      \<and> length ds \<le> int_max_str_digits
      \<longrightarrow> format_duration d =
            Inr (if int_of_digits ds < 60 then str_of_nat (int_of_digits ds) @ ''m''
                 else str_of_nat (int_of_digits ds div 60) @ ''h '' @
                      str_of_nat (int_of_digits ds mod 60) @ ''m''))"
  by (auto simp: format_duration_def Let_def)

lemma runtime_page_facts:
  "launch_error (runtime_page v) = None" "viewport_error (runtime_page v) = None"
  "goto_error (runtime_page v) = None" "browser_close_error (runtime_page v) = None"
  "info_section (runtime_page v)
     = Inr [Inr \<lparr>label_count = Suc 0, label_text = ''Runtime'', value_texts = v # []\<rparr>]"
  by (simp_all add: runtime_page_def page_full_def)

text \<open>
  Claim C7, amended. Let \<open>d\<close> be the first value of the Runtime row, stripped and
  without its spaces. When \<open>d\<close> contains no \<^verbatim>\<open>h\<close> and no \<^verbatim>\<open>m\<close> in either case and its
  first run of digits (of at most 4300 digits) reads \<open>N\<close>, the duration returned is
  \<^verbatim>\<open>{N}m\<close> for \<open>N < 60\<close> and \<^verbatim>\<open>{N div 60}h {N mod 60}m\<close> otherwise. When \<open>d\<close>
  contains one of the letters, or no digit, the duration returned is \<open>d\<close>: the raw
  value without its spaces.
\<close>

theorem runtime_reformatted:
  assumes "launch_error pg = None" and "viewport_error pg = None" and "goto_error pg = None"
    and "browser_close_error pg = None"
    and "info_section pg = Inr [Inr \<lparr>label_count = Suc n, label_text = ''Runtime'',
                                        value_texts = v # vs\<rparr>]"
    and "strip v \<noteq> []"
    and "d = filter (\<lambda>c. c \<noteq> CHR '' '') (strip v)"
  shows "(CHR ''h'' \<in> set (lower d) \<or> CHR ''m'' \<in> set (lower d) \<or> search_digits d = None
            \<longrightarrow> (\<exists>md. scrape_movie_metadata_efficient pg u t = Inr (Metadata md)
                      \<and> duration md = Some d)) \<and>
         (\<not> (CHR ''h'' \<in> set (lower d) \<or> CHR ''m'' \<in> set (lower d))
            \<and> search_digits d = Some ds \<and> length ds \<le> int_max_str_digits
            \<longrightarrow> (\<exists>md. scrape_movie_metadata_efficient pg u t = Inr (Metadata md)
                      \<and> duration md =
                          Some (if int_of_digits ds < 60
                                then str_of_nat (int_of_digits ds) @ ''m''
                                else str_of_nat (int_of_digits ds div 60) @ ''h '' @
                                     str_of_nat (int_of_digits ds mod 60) @ ''m'')))"
proof (intro conjI impI)
  assume "CHR ''h'' \<in> set (lower d) \<or> CHR ''m'' \<in> set (lower d) \<or> search_digits d = None"
  then have "format_duration d = Inr d"
    using format_duration_cases[of d] by blast
  then show "\<exists>md. scrape_movie_metadata_efficient pg u t = Inr (Metadata md)
                   \<and> duration md = Some d"
    using runtime_row_duration[OF assms(1-6)] assms(7) by simp
next
  assume "\<not> (CHR ''h'' \<in> set (lower d) \<or> CHR ''m'' \<in> set (lower d))
            \<and> search_digits d = Some ds \<and> length ds \<le> int_max_str_digits"
  then have "format_duration d =
            Inr (if int_of_digits ds < 60 then str_of_nat (int_of_digits ds) @ ''m''
                 else str_of_nat (int_of_digits ds div 60) @ ''h '' @
                      str_of_nat (int_of_digits ds mod 60) @ ''m'')"
    using format_duration_cases[of d ds] by blast
  then show "\<exists>md. scrape_movie_metadata_efficient pg u t = Inr (Metadata md)
                   \<and> duration md =
                       Some (if int_of_digits ds < 60
                             then str_of_nat (int_of_digits ds) @ ''m''
                             else str_of_nat (int_of_digits ds div 60) @ ''h '' @
                                  str_of_nat (int_of_digits ds mod 60) @ ''m'')"
    using runtime_row_duration[OF assms(1-6)] assms(7) by simp
qed

lemma runtime_values:
  "strip ''95'' \<noteq> []" "''95'' = filter (\<lambda>c. c \<noteq> CHR '' '') (strip ''95'')"
  "\<not> (CHR ''h'' \<in> set (lower ''95'') \<or> CHR ''m'' \<in> set (lower ''95''))
     \<and> search_digits ''95'' = Some ''95'' \<and> length ''95'' \<le> int_max_str_digits"
  "(if int_of_digits ''95'' < 60 then str_of_nat (int_of_digits ''95'') @ ''m''
    else str_of_nat (int_of_digits ''95'' div 60) @ ''h '' @
         str_of_nat (int_of_digits ''95'' mod 60) @ ''m'') = ''1h 35m''"
  "strip ''45'' \<noteq> []" "''45'' = filter (\<lambda>c. c \<noteq> CHR '' '') (strip ''45'')"
  "\<not> (CHR ''h'' \<in> set (lower ''45'') \<or> CHR ''m'' \<in> set (lower ''45''))
     \<and> search_digits ''45'' = Some ''45'' \<and> length ''45'' \<le> int_max_str_digits"
  "(if int_of_digits ''45'' < 60 then str_of_nat (int_of_digits ''45'') @ ''m''
    else str_of_nat (int_of_digits ''45'' div 60) @ ''h '' @
         str_of_nat (int_of_digits ''45'' mod 60) @ ''m'') = ''45m''"
  "strip ''1h 35m'' \<noteq> []" "''1h35m'' = filter (\<lambda>c. c \<noteq> CHR '' '') (strip ''1h 35m'')"
  "CHR ''h'' \<in> set (lower ''1h35m'') \<or> CHR ''m'' \<in> set (lower ''1h35m'')
     \<or> search_digits ''1h35m'' = None"
  by code_simp+

text \<open>Raw 95 yields \<^verbatim>\<open>1h 35m\<close>, raw 45 yields \<^verbatim>\<open>45m\<close>, raw \<^verbatim>\<open>1h 35m\<close> yields \<^verbatim>\<open>1h35m\<close>.\<close>

theorem runtime_reformatted_witness:
  "(\<exists>md. scrape_movie_metadata_efficient (runtime_page ''95'') ''u'' ''t'' = Inr (Metadata md)
         \<and> duration md = Some ''1h 35m'') \<and>
   (\<exists>md. scrape_movie_metadata_efficient (runtime_page ''45'') ''u'' ''t'' = Inr (Metadata md)
         \<and> duration md = Some ''45m'') \<and>
   (\<exists>md. scrape_movie_metadata_efficient (runtime_page ''1h 35m'') ''u'' ''t'' = Inr (Metadata md)
         \<and> duration md = Some ''1h35m'')"
proof (intro conjI)
  note minutes = runtime_reformatted[where u = "''u''" and t = "''t''" and ds = "''95''",
      OF runtime_page_facts runtime_values(1,2), THEN conjunct2, rule_format,
      OF runtime_values(3)]
  then show "\<exists>md. scrape_movie_metadata_efficient (runtime_page ''95'') ''u'' ''t''
                    = Inr (Metadata md) \<and> duration md = Some ''1h 35m''"
    unfolding runtime_values(4) .
  note short = runtime_reformatted[where u = "''u''" and t = "''t''" and ds = "''45''",
      OF runtime_page_facts runtime_values(5,6), THEN conjunct2, rule_format,
      OF runtime_values(7)]
  then show "\<exists>md. scrape_movie_metadata_efficient (runtime_page ''45'') ''u'' ''t''
                    = Inr (Metadata md) \<and> duration md = Some ''45m''"
    unfolding runtime_values(8) .
  show "\<exists>md. scrape_movie_metadata_efficient (runtime_page ''1h 35m'') ''u'' ''t''
               = Inr (Metadata md) \<and> duration md = Some ''1h35m''"
    by (rule runtime_reformatted[where u = "''u''" and t = "''t''",
          OF runtime_page_facts runtime_values(9,10), THEN conjunct1, rule_format,
          OF runtime_values(11)])
qed

lemma runtime_page_formatted:
  "scrape_movie_metadata_efficient (runtime_page ''1h 35m'') ''u'' ''t''
     = Inr (Metadata
         \<lparr>title = ''t'', url = ''u'', tomatometer_score = Some 93, audience_score = Some 88,
          genre = None, rating = None, duration = Some ''1h35m'', release_date = None,
          director = None, original_language = None, box_office = None, distributor = None,
          error = None\<rparr>)"
  by code_simp

text \<open>
  Claim C7 as stated fails in its last part: line 319 removes the spaces of the raw
  value, so the formatted value \<^verbatim>\<open>1h 35m\<close> is not returned unchanged.
\<close>

theorem formatted_runtime_changed:
  "\<exists>md. scrape_movie_metadata_efficient (runtime_page ''1h 35m'') ''u'' ''t'' = Inr (Metadata md)
        \<and> duration md = Some ''1h35m'' \<and> duration md \<noteq> Some ''1h 35m''"
  unfolding runtime_page_formatted by simp

section \<open>Title normalisation: what it is insensitive to\<close>

lemma lower_char_other: "c \<notin> set ascii_upper \<Longrightarrow> lower_char c = c"
proof -
  assume "c \<notin> set ascii_upper"
  moreover have "length ascii_upper = length ascii_lower"
    by (simp add: ascii_upper_def ascii_lower_def)
  ultimately have "map_of (zip ascii_upper ascii_lower) c = None"
    by (simp add: map_of_zip_is_None)
  then show ?thesis by (simp add: lower_char_def)
qed

lemma lower_char_upper: "c \<in> set ascii_upper \<Longrightarrow> lower_char c \<in> set ascii_lower"
proof -
  assume c: "c \<in> set ascii_upper"
  have len: "length ascii_upper = length ascii_lower"
    by (simp add: ascii_upper_def ascii_lower_def)
  with c have "map_of (zip ascii_upper ascii_lower) c \<noteq> None"
    by (simp add: map_of_zip_is_None)
  then obtain d where d: "map_of (zip ascii_upper ascii_lower) c = Some d" by blast
  then have "(c, d) \<in> set (zip ascii_upper ascii_lower)" by (rule map_of_SomeD)
  then have "d \<in> set ascii_lower" by (rule set_zip_rightD)
  with d show ?thesis by (simp add: lower_char_def)
qed

lemma letters_not_space: "c \<in> set ascii_upper \<or> c \<in> set ascii_lower \<Longrightarrow> \<not> is_space c"
  unfolding ascii_upper_def ascii_lower_def is_space_def by auto

lemma letters_word: "c \<in> set ascii_upper \<or> c \<in> set ascii_lower \<Longrightarrow> is_word c"
  by (auto simp: is_word_def)

lemma is_space_lower_char: "is_space (lower_char c) = is_space c"
proof (cases "c \<in> set ascii_upper")
  case True
  then show ?thesis using lower_char_upper[OF True] letters_not_space by blast
next
  case False
  then show ?thesis by (simp add: lower_char_other)
qed

lemma is_word_lower_char: "is_word (lower_char c) = is_word c"
proof (cases "c \<in> set ascii_upper")
  case True
  then show ?thesis using lower_char_upper[OF True] letters_word by blast
next
  case False
  then show ?thesis by (simp add: lower_char_other)
qed

lemma lower_append: "lower (a @ b) = lower a @ lower b"
  by (simp add: lower_def)

lemma normalize_title_unfold:
  "normalize_title t = strip_punctuation (collapse_spaces (strip (lower t)))"
  by (simp add: normalize_title_def lower_def strip_def lstrip_where_def rstrip_where_def
      strip_punctuation_def)

lemma collapse_spaces_append:
  assumes "(x = [] \<or> \<not> is_space (last x)) \<or> (y = [] \<or> \<not> is_space (hd y))"
  shows "collapse_spaces (x @ y) = collapse_spaces x @ collapse_spaces y"
  using assms
proof (induction x rule: collapse_spaces.induct)
  case 1
  then show ?case by simp
next
  case (2 c cs)
  show ?case
  proof (cases "is_space c")
    case False
    have "(cs = [] \<or> \<not> is_space (last cs)) \<or> (y = [] \<or> \<not> is_space (hd y))"
      using "2.prems" by (cases cs) auto
    then show ?thesis using False "2.IH"(2) by simp
  next
    case True
    show ?thesis
    proof (cases "\<forall>d \<in> set cs. is_space d")
      case all: True
      then have d: "dropWhile is_space cs = []" by simp
      have "last (c # cs) \<in> set (c # cs)" by (rule last_in_set) simp
      then have "is_space (last (c # cs))" using all True by auto
      with "2.prems" have y: "y = [] \<or> \<not> is_space (hd y)" by simp
      then have dy: "dropWhile is_space y = y" by (cases y) auto
      have "dropWhile is_space (cs @ y) = dropWhile is_space y"
        using all by (simp add: dropWhile_append2)
      then have "collapse_spaces ((c # cs) @ y) = CHR '' '' # collapse_spaces y"
        using True dy by simp
      moreover have "collapse_spaces (c # cs) = CHR '' '' # collapse_spaces []"
        using True by (simp only: collapse_spaces.simps d if_True)
      ultimately show ?thesis by simp
    next
      case False
      then obtain d where d: "d \<in> set cs" "\<not> is_space d" by blast
      then have dw: "dropWhile is_space (cs @ y) = dropWhile is_space cs @ y"
        by (rule dropWhile_append1)
      have ne: "dropWhile is_space cs \<noteq> []" using d by auto
      have "last (dropWhile is_space cs) = last cs"
        using ne by (metis last_appendR takeWhile_dropWhile_id)
      moreover have "last (c # cs) = last cs" using d by auto
      ultimately have "(dropWhile is_space cs = [] \<or> \<not> is_space (last (dropWhile is_space cs)))
                        \<or> (y = [] \<or> \<not> is_space (hd y))"
        using "2.prems" by auto
      then show ?thesis using True "2.IH"(1) dw by simp
    qed
  qed
qed

lemma collapse_spaces_nonspace:
  "\<forall>c \<in> set p. \<not> is_space c \<Longrightarrow> collapse_spaces p = p"
  by (induction p) auto

lemma collapse_spaces_run:
  assumes "w \<noteq> []" "\<forall>c \<in> set w. is_space c"
  shows "collapse_spaces (w @ b) = CHR '' '' # collapse_spaces (dropWhile is_space b)"
proof -
  from assms obtain c w0 where w: "w = c # w0" by (cases w) auto
  then have "dropWhile is_space (w0 @ b) = dropWhile is_space b"
    using assms(2) by (simp add: dropWhile_append2)
  then show ?thesis using w assms(2) by simp
qed

lemma collapse_spaces_inner:
  assumes "w \<noteq> []" "\<forall>c \<in> set w. is_space c" "w' \<noteq> []" "\<forall>c \<in> set w'. is_space c"
  shows "collapse_spaces (a @ w @ b) = collapse_spaces (a @ w' @ b)"
proof (induction a rule: collapse_spaces.induct)
  case 1
  show ?case using collapse_spaces_run[OF assms(1,2)] collapse_spaces_run[OF assms(3,4)] by simp
next
  case (2 c cs)
  show ?case
  proof (cases "is_space c")
    case False
    then show ?thesis using "2.IH"(2) by simp
  next
    case True
    show ?thesis
    proof (cases "\<forall>d \<in> set cs. is_space d")
      case all: True
      have "dropWhile is_space (cs @ w @ b) = dropWhile is_space b"
        "dropWhile is_space (cs @ w' @ b) = dropWhile is_space b"
        using all assms(2,4) by (simp_all add: dropWhile_append2)
      then show ?thesis using True by simp
    next
      case False
      then obtain d where d: "d \<in> set cs" "\<not> is_space d" by blast
      have "dropWhile is_space (cs @ w @ b) = dropWhile is_space cs @ w @ b"
        "dropWhile is_space (cs @ w' @ b) = dropWhile is_space cs @ w' @ b"
        using d by (simp_all add: dropWhile_append1)
      then show ?thesis using True "2.IH"(1) by simp
    qed
  qed
qed

lemma lstrip_all: "\<forall>c \<in> set a. P c \<Longrightarrow> lstrip_where P (a @ x) = lstrip_where P x"
  by (simp add: lstrip_where_def dropWhile_append2)

lemma lstrip_some: "\<exists>c \<in> set a. \<not> P c \<Longrightarrow> lstrip_where P (a @ x) = lstrip_where P a @ x"
  by (auto simp: lstrip_where_def dropWhile_append1)

lemma rstrip_all: "\<forall>c \<in> set b. P c \<Longrightarrow> rstrip_where P (x @ b) = rstrip_where P x"
proof -
  assume "\<forall>c \<in> set b. P c"
  then have "dropWhile P (rev b @ rev x) = dropWhile P (rev x)"
    by (intro dropWhile_append2) simp
  then show ?thesis by (simp add: rstrip_where_def)
qed

lemma lstrip_keep:
  assumes "y \<noteq> []" "\<not> P (hd y)"
  shows "lstrip_where P (x @ y) = lstrip_where P x @ y"
proof (cases "\<forall>c \<in> set x. P c")
  case True
  have "dropWhile P y = y" using assms by (cases y) auto
  then show ?thesis using True by (simp add: lstrip_where_def dropWhile_append2)
next
  case False
  then show ?thesis by (simp add: lstrip_some)
qed

lemma lower_spaces: "\<forall>c \<in> set w. is_space c \<Longrightarrow> \<forall>c \<in> set (lower w). is_space c"
  by (auto simp: lower_def is_space_lower_char)

lemma strip_inner:
  assumes w: "w \<noteq> []" "\<forall>c \<in> set w. is_space c" and w': "w' \<noteq> []" "\<forall>c \<in> set w'. is_space c"
  shows "collapse_spaces (strip (a @ w @ b)) = collapse_spaces (strip (a @ w' @ b))"
proof (cases "\<forall>c \<in> set a. is_space c")
  case True
  then have "\<forall>c \<in> set (a @ w). is_space c" "\<forall>c \<in> set (a @ w'). is_space c"
    using w w' by auto
  then have "lstrip_where is_space ((a @ w) @ b) = lstrip_where is_space b"
    "lstrip_where is_space ((a @ w') @ b) = lstrip_where is_space b"
    by (simp_all only: lstrip_all)
  then show ?thesis by (simp add: strip_def)
next
  case a: False
  then have la: "lstrip_where is_space (a @ x) = lstrip_where is_space a @ x" for x
    by (simp add: lstrip_some)
  show ?thesis
  proof (cases "\<forall>c \<in> set b. is_space c")
    case True
    then have "\<forall>c \<in> set (w @ b). is_space c" "\<forall>c \<in> set (w' @ b). is_space c"
      using w w' by auto
    then have "rstrip_where is_space (lstrip_where is_space a @ w @ b)
                 = rstrip_where is_space (lstrip_where is_space a)"
      "rstrip_where is_space (lstrip_where is_space a @ w' @ b)
                 = rstrip_where is_space (lstrip_where is_space a)"
      by (simp_all only: rstrip_all)
    then show ?thesis by (simp add: strip_def la)
  next
    case False
    then have rb: "rstrip_where is_space (x @ b) = x @ rstrip_where is_space b" for x
      by (simp add: rstrip_where_append_keep)
    have "strip (a @ w @ b) = lstrip_where is_space a @ w @ rstrip_where is_space b"
      "strip (a @ w' @ b) = lstrip_where is_space a @ w' @ rstrip_where is_space b"
      using rb[of "lstrip_where is_space a @ w"] rb[of "lstrip_where is_space a @ w'"]
      by (simp_all add: strip_def la)
    then show ?thesis
      using collapse_spaces_inner[OF w w'] by simp
  qed
qed

lemma normalize_title_spaces:
  assumes "w \<noteq> []" "\<forall>c \<in> set w. is_space c" "w' \<noteq> []" "\<forall>c \<in> set w'. is_space c"
  shows "normalize_title (a @ w @ b) = normalize_title (a @ w' @ b)"
proof -
  have "lower w \<noteq> []" "lower w' \<noteq> []" using assms by (simp_all add: lower_def)
  then show ?thesis
    unfolding normalize_title_unfold lower_append
    using strip_inner[OF _ lower_spaces[OF assms(2)] _ lower_spaces[OF assms(4)]] by simp
qed

lemma strip_outer:
  assumes "\<forall>c \<in> set w. is_space c"
  shows "strip (w @ a) = strip a" and "strip (a @ w) = strip a"
proof -
  show "strip (w @ a) = strip a"
    using assms by (simp add: strip_def lstrip_all)
  show "strip (a @ w) = strip a"
  proof (cases "\<forall>c \<in> set a. is_space c")
    case True
    then have "\<forall>c \<in> set (a @ w). is_space c" using assms by auto
    then have "lstrip_where is_space (a @ w) = []" "lstrip_where is_space a = []"
      using True by (simp_all add: lstrip_where_def)
    then show ?thesis by (simp add: strip_def)
  next
    case False
    then show ?thesis using assms by (simp add: strip_def lstrip_some rstrip_all)
  qed
qed

lemma normalize_title_outer:
  assumes "\<forall>c \<in> set w. is_space c"
  shows "normalize_title (w @ a) = normalize_title a" and "normalize_title (a @ w) = normalize_title a"
  unfolding normalize_title_unfold lower_append
  using strip_outer[OF lower_spaces[OF assms]] by simp_all

lemma strip_punctuation_append:
  "strip_punctuation (x @ y) = strip_punctuation x @ strip_punctuation y"
  by (simp add: strip_punctuation_def)

lemma strip_punctuation_all:
  "\<forall>c \<in> set p. \<not> is_word c \<and> \<not> is_space c \<Longrightarrow> strip_punctuation p = []"
  by (auto simp: strip_punctuation_def filter_empty_conv)

lemma lower_punctuation:
  "\<forall>c \<in> set p. \<not> is_word c \<and> \<not> is_space c
     \<Longrightarrow> \<forall>c \<in> set (lower p). \<not> is_word c \<and> \<not> is_space c"
  by (auto simp: lower_def is_space_lower_char is_word_lower_char)

lemma lstrip_last:
  assumes "x \<noteq> []" "\<not> P (last x)"
  shows "lstrip_where P x \<noteq> []" and "last (lstrip_where P x) = last x"
proof -
  have "last x \<in> set x" using assms(1) by simp
  then show ne: "lstrip_where P x \<noteq> []"
    using assms(2) by (auto simp: lstrip_where_def)
  then show "last (lstrip_where P x) = last x"
    unfolding lstrip_where_def by (metis last_appendR takeWhile_dropWhile_id)
qed

lemma rstrip_hd:
  assumes "y \<noteq> []" "\<not> P (hd y)"
  shows "rstrip_where P y \<noteq> []" and "hd (rstrip_where P y) = hd y"
proof -
  have "hd y \<in> set y" using assms(1) by simp
  then have "\<exists>c \<in> set y. \<not> P c" using assms(2) by blast
  then have "\<exists>c \<in> set (rstrip_where P y). \<not> P c" by (rule rstrip_where_nonempty)
  then show ne: "rstrip_where P y \<noteq> []" by auto
  obtain s where s: "y = rstrip_where P y @ s"
    using rstrip_where_split[of y P] by blast
  have "hd (rstrip_where P y @ s) = hd (rstrip_where P y)" using ne by simp
  then show "hd (rstrip_where P y) = hd y" using s by metis
qed

text \<open>Punctuation next to a character that is no white space leaves no trace.\<close>

lemma punctuation_dropped:
  assumes p: "\<forall>c \<in> set p. \<not> is_word c \<and> \<not> is_space c"
    and side: "(a \<noteq> [] \<and> \<not> is_space (last a)) \<or> (b \<noteq> [] \<and> \<not> is_space (hd b))"
  shows "strip_punctuation (collapse_spaces (strip (a @ p @ b)))
           = strip_punctuation (collapse_spaces (strip (a @ b)))"
proof (cases "p = []")
  case True
  then show ?thesis by simp
next
  case pne: False
  have pns: "\<forall>c \<in> set p. \<not> is_space c" using p by blast
  have plast: "\<not> is_space (last p)" and phd: "\<not> is_space (hd p)"
    using pne pns by simp_all
  have csp: "collapse_spaces p = p" using pns by (rule collapse_spaces_nonspace)
  let ?A = "lstrip_where is_space a" and ?B = "rstrip_where is_space b"
  have "strip (a @ p @ b) = ?A @ p @ ?B \<and> strip (a @ b) = ?A @ ?B
        \<and> ((?A = [] \<or> \<not> is_space (last ?A)) \<or> (?B = [] \<or> \<not> is_space (hd ?B)))"
  proof (rule disjE[OF side])
    assume a: "a \<noteq> [] \<and> \<not> is_space (last a)"
    then have A: "?A \<noteq> []" "\<not> is_space (last ?A)"
      using lstrip_last[of a is_space] by simp_all
    have ex: "\<exists>c \<in> set a. \<not> is_space c" using a last_in_set by blast
    have 1: "lstrip_where is_space (a @ p @ b) = ?A @ p @ b"
      and 2: "lstrip_where is_space (a @ b) = ?A @ b"
      using ex by (simp_all add: lstrip_some)
    have "rstrip_where is_space ((?A @ p) @ b) = (?A @ p) @ ?B"
      by (rule rstrip_where_keep) (use pne plast in simp_all)
    moreover have "rstrip_where is_space (?A @ b) = ?A @ ?B"
      using A by (rule rstrip_where_keep)
    ultimately show ?thesis using A by (simp add: strip_def 1 2)
  next
    assume b: "b \<noteq> [] \<and> \<not> is_space (hd b)"
    then have B: "?B \<noteq> []" "\<not> is_space (hd ?B)"
      using rstrip_hd[of b is_space] by simp_all
    have ex: "\<exists>c \<in> set b. \<not> is_space c" using b hd_in_set by blast
    have 1: "lstrip_where is_space (a @ (p @ b)) = ?A @ (p @ b)"
      by (rule lstrip_keep) (use pne phd in simp_all)
    have 2: "lstrip_where is_space (a @ b) = ?A @ b"
      using b by (intro lstrip_keep) simp_all
    have "rstrip_where is_space ((?A @ p) @ b) = (?A @ p) @ ?B"
      "rstrip_where is_space (?A @ b) = ?A @ ?B"
      using ex by (simp_all only: rstrip_where_append_keep)
    then show ?thesis using B 1 by (simp add: strip_def 2)
  qed
  then have s1: "strip (a @ p @ b) = ?A @ p @ ?B" and s2: "strip (a @ b) = ?A @ ?B"
    and bd: "(?A = [] \<or> \<not> is_space (last ?A)) \<or> (?B = [] \<or> \<not> is_space (hd ?B))"
    by blast+
  have "collapse_spaces (?A @ p @ ?B) = collapse_spaces ?A @ collapse_spaces (p @ ?B)"
    by (rule collapse_spaces_append) (use pne phd in simp)
  also have "collapse_spaces (p @ ?B) = collapse_spaces p @ collapse_spaces ?B"
    by (rule collapse_spaces_append) (use pne plast in simp)
  finally have c1: "collapse_spaces (?A @ p @ ?B)
                      = collapse_spaces ?A @ p @ collapse_spaces ?B"
    by (simp add: csp)
  have c2: "collapse_spaces (?A @ ?B) = collapse_spaces ?A @ collapse_spaces ?B"
    using bd by (rule collapse_spaces_append)
  show ?thesis
    unfolding s1 s2 c1 c2 by (simp add: strip_punctuation_append strip_punctuation_all[OF p])
qed

lemma normalize_title_punctuation:
  assumes "\<forall>c \<in> set p. \<not> is_word c \<and> \<not> is_space c"
    and "(a \<noteq> [] \<and> \<not> is_space (last a)) \<or> (b \<noteq> [] \<and> \<not> is_space (hd b))"
  shows "normalize_title (a @ p @ b) = normalize_title (a @ b)"
proof -
  have "(lower a \<noteq> [] \<and> \<not> is_space (last (lower a)))
        \<or> (lower b \<noteq> [] \<and> \<not> is_space (hd (lower b)))"
    using assms(2) by (auto simp: lower_def last_map hd_map is_space_lower_char)
  then show ?thesis
    unfolding normalize_title_unfold lower_append
    by (rule punctuation_dropped[OF lower_punctuation[OF assms(1)]])
qed

text \<open>
  Claim C6, amended. On titles that consist of ASCII characters, \<^verbatim>\<open>normalize_title\<close>
  is insensitive to letter case, to the length of every run of white space inside the
  title and to white space around it; and a run of punctuation characters is ignored
  when a character other than white space stands directly before or directly after it.
  \<^verbatim>\<open>The Matrix!\<close> and \<^verbatim>\<open>the   matrix\<close> normalize identically.
\<close>

theorem normalize_title_insensitive:
  "(list_all is_ascii s \<and> list_all is_ascii t \<and> lower s = lower t
      \<longrightarrow> normalize_title s = normalize_title t) \<and>
   (list_all is_ascii (a @ b) \<and> w \<noteq> [] \<and> w' \<noteq> []
      \<and> list_all is_space w \<and> list_all is_space w'
      \<longrightarrow> normalize_title (a @ w @ b) = normalize_title (a @ w' @ b)) \<and>
   (list_all is_ascii a \<and> list_all is_space w
      \<longrightarrow> normalize_title (w @ a) = normalize_title a
          \<and> normalize_title (a @ w) = normalize_title a) \<and>
   (list_all is_ascii (a @ p @ b) \<and> list_all (\<lambda>c. \<not> is_word c \<and> \<not> is_space c) p
      \<and> ((a \<noteq> [] \<and> \<not> is_space (last a)) \<or> (b \<noteq> [] \<and> \<not> is_space (hd b)))
      \<longrightarrow> normalize_title (a @ p @ b) = normalize_title (a @ b)) \<and>
   normalize_title ''The Matrix!'' = normalize_title ''the   matrix''"
proof (intro conjI impI)
  assume "list_all is_ascii s \<and> list_all is_ascii t \<and> lower s = lower t"
  then show "normalize_title s = normalize_title t"
    by (simp add: normalize_title_unfold)
next
  assume "list_all is_ascii (a @ b) \<and> w \<noteq> [] \<and> w' \<noteq> []
            \<and> list_all is_space w \<and> list_all is_space w'"
  then show "normalize_title (a @ w @ b) = normalize_title (a @ w' @ b)"
    by (intro normalize_title_spaces) (simp_all add: list_all_iff)
next
  assume "list_all is_ascii a \<and> list_all is_space w"
  then show "normalize_title (w @ a) = normalize_title a"
    by (intro normalize_title_outer) (simp add: list_all_iff)
next
  assume "list_all is_ascii a \<and> list_all is_space w"
  then show "normalize_title (a @ w) = normalize_title a"
    by (intro normalize_title_outer) (simp add: list_all_iff)
next
  assume "list_all is_ascii (a @ p @ b) \<and> list_all (\<lambda>c. \<not> is_word c \<and> \<not> is_space c) p
      \<and> ((a \<noteq> [] \<and> \<not> is_space (last a)) \<or> (b \<noteq> [] \<and> \<not> is_space (hd b)))"
  then show "normalize_title (a @ p @ b) = normalize_title (a @ b)"
    by (intro normalize_title_punctuation) (simp_all add: list_all_iff)
next
  show "normalize_title ''The Matrix!'' = normalize_title ''the   matrix''"
    by code_simp
qed

lemma title_examples:
  "list_all is_ascii ''The Matrix'' \<and> list_all is_ascii ''THE MATRIX''
     \<and> lower ''The Matrix'' = lower ''THE MATRIX''"
  "list_all is_ascii (''The'' @ ''Matrix'') \<and> ''   '' \<noteq> [] \<and> '' '' \<noteq> []
     \<and> list_all is_space ''   '' \<and> list_all is_space '' ''"
  "list_all is_ascii (''The Matrix'' @ ''!'' @ [])
     \<and> list_all (\<lambda>c. \<not> is_word c \<and> \<not> is_space c) ''!''
     \<and> ((''The Matrix'' \<noteq> [] \<and> \<not> is_space (last ''The Matrix''))
          \<or> ([] \<noteq> [] \<and> \<not> is_space (hd [])))"
  "normalize_title ''The Matrix'' = ''the matrix''"
  by code_simp+

text \<open>
  Upper case, a run of three spaces and a final exclamation mark: each variant of the
  title normalizes to \<^verbatim>\<open>the matrix\<close>.
\<close>

theorem normalize_title_insensitive_witness:
  "list_all is_ascii ''The Matrix'' \<and> list_all is_ascii ''THE MATRIX'' \<and>
   lower ''The Matrix'' = lower ''THE MATRIX'' \<and>
   normalize_title ''The Matrix'' = ''the matrix'' \<and>
   normalize_title ''THE MATRIX'' = ''the matrix'' \<and>
   normalize_title ''The   Matrix'' = ''the matrix'' \<and>
   normalize_title ''The Matrix!'' = ''the matrix''"
proof -
  note T = normalize_title_insensitive
  have 1: "normalize_title ''The Matrix'' = normalize_title ''THE MATRIX''"
    by (rule T[where s = "''The Matrix''" and t = "''THE MATRIX''", THEN conjunct1,
          rule_format, OF title_examples(1)])
  have 2: "normalize_title (''The'' @ ''   '' @ ''Matrix'')
             = normalize_title (''The'' @ '' '' @ ''Matrix'')"
    by (rule T[where w = "''   ''" and w' = "'' ''" and a = "''The''" and b = "''Matrix''",
          THEN conjunct2, THEN conjunct1, rule_format, OF title_examples(2)])
  have 3: "normalize_title (''The Matrix'' @ ''!'' @ [])
             = normalize_title (''The Matrix'' @ [])"
    by (rule T[where p = "''!''" and a = "''The Matrix''" and b = "[]",
          THEN conjunct2, THEN conjunct2, THEN conjunct2, THEN conjunct1, rule_format,
          OF title_examples(3)])
  from 1 2 3 show ?thesis
    using title_examples(1,4) by simp
qed

text \<open>
  Claim C6 as stated fails: punctuation is removed after the white space has been
  collapsed, so a punctuation mark between two spaces leaves both of them. The two
  titles below differ only in the hyphen, and normalize differently.
\<close>

theorem punctuation_between_spaces:
  "strip_punctuation ''Mission - Impossible'' = ''Mission  Impossible'' \<and>
   normalize_title ''Mission - Impossible'' = ''mission  impossible'' \<and>
   normalize_title ''Mission  Impossible'' = ''mission impossible'' \<and>
   normalize_title ''Mission - Impossible'' \<noteq> normalize_title ''Mission  Impossible''"
  by code_simp

end
